theory Spec2Isabelle
  imports Complex_Main "HOL-Library.Multiset"
begin

section \<open>Python floats\<close>

text \<open>
  The order-book analytics of \<^verbatim>\<open>src/02_lakehouse/bronze_to_silver_gold.py\<close> compute
  with Python \<^verbatim>\<open>float\<close>s, IEEE 754 doubles. A float is modelled as the real number it
  denotes, or one of the three non-finite values; the two signed zeros are one value.
  The non-finite cases of the operations follow IEEE 754 as Python exposes them: every
  comparison with NaN is false, \<^verbatim>\<open>inf - inf\<close> and \<^verbatim>\<open>0 * inf\<close> are NaN.
\<close>

datatype pyfloat = Fin real | PInf | NInf | NaN

datatype py_error =
  AttributeError | KeyError | TypeError | ValueError | OverflowError | ZeroDivisionError

fun is_finite :: "pyfloat \<Rightarrow> bool" where
  "is_finite (Fin r) = True"
| "is_finite PInf = False"
| "is_finite NInf = False"
| "is_finite NaN = False"

text \<open>The real number of a finite float.\<close>

fun fin_val :: "pyfloat \<Rightarrow> real" where
  "fin_val (Fin r) = r"
| "fin_val x = 0"

text \<open>\<^verbatim>\<open>a < b\<close>, \<^verbatim>\<open>a <= b\<close>, \<^verbatim>\<open>a > b\<close>, \<^verbatim>\<open>a >= b\<close> on floats.\<close>

fun flt :: "pyfloat \<Rightarrow> pyfloat \<Rightarrow> bool" where
  "flt NaN y = False"
| "flt x NaN = False"
| "flt (Fin a) (Fin b) = (a < b)"
| "flt (Fin a) PInf = True"
| "flt (Fin a) NInf = False"
| "flt NInf (Fin b) = True"
| "flt NInf PInf = True"
| "flt NInf NInf = False"
| "flt PInf y = False"

definition fle :: "pyfloat \<Rightarrow> pyfloat \<Rightarrow> bool" where
  "fle x y = (x \<noteq> NaN \<and> y \<noteq> NaN \<and> (x = y \<or> flt x y))"

definition fgt :: "pyfloat \<Rightarrow> pyfloat \<Rightarrow> bool" where
  "fgt x y = flt y x"

definition fge :: "pyfloat \<Rightarrow> pyfloat \<Rightarrow> bool" where
  "fge x y = fle y x"

subsection \<open>Arithmetic and its rounding\<close>

text \<open>
  An operation on finite floats returns the float that the rounding assigns to the exact
  real result. The rounding is a parameter \<open>fl\<close> of every function that computes: what
  is proved for every \<open>fl\<close> holds for Python's arithmetic, which is \<open>fl = ieee\<close> below,
  and for exact arithmetic, which is \<open>fl = Fin\<close>.
\<close>

type_synonym rounding = "real \<Rightarrow> pyfloat"

text \<open>\<^verbatim>\<open>a + b\<close>, \<^verbatim>\<open>-a\<close>, \<^verbatim>\<open>a - b\<close>, \<^verbatim>\<open>a * b\<close>.\<close>

fun fadd :: "rounding \<Rightarrow> pyfloat \<Rightarrow> pyfloat \<Rightarrow> pyfloat" where
  "fadd fl NaN y = NaN"
| "fadd fl x NaN = NaN"
| "fadd fl (Fin a) (Fin b) = fl (a + b)"
| "fadd fl (Fin a) PInf = PInf"
| "fadd fl (Fin a) NInf = NInf"
| "fadd fl PInf (Fin b) = PInf"
| "fadd fl NInf (Fin b) = NInf"
| "fadd fl PInf PInf = PInf"
| "fadd fl NInf NInf = NInf"
| "fadd fl PInf NInf = NaN"
| "fadd fl NInf PInf = NaN"

fun fneg :: "pyfloat \<Rightarrow> pyfloat" where
  "fneg (Fin a) = Fin (- a)"
| "fneg PInf = NInf"
| "fneg NInf = PInf"
| "fneg NaN = NaN"

definition fsub :: "rounding \<Rightarrow> pyfloat \<Rightarrow> pyfloat \<Rightarrow> pyfloat" where
  "fsub fl x y = fadd fl x (fneg y)"

text \<open>An infinity of the sign of \<open>r\<close>, NaN for \<open>r = 0\<close>: the product of \<open>inf\<close> and \<open>r\<close>.\<close>

definition inf_of_sign :: "real \<Rightarrow> pyfloat" where
  "inf_of_sign r = (if 0 < r then PInf else if r < 0 then NInf else NaN)"

fun fmul :: "rounding \<Rightarrow> pyfloat \<Rightarrow> pyfloat \<Rightarrow> pyfloat" where
  "fmul fl NaN y = NaN"
| "fmul fl x NaN = NaN"
| "fmul fl (Fin a) (Fin b) = fl (a * b)"
| "fmul fl (Fin a) PInf = inf_of_sign a"
| "fmul fl (Fin a) NInf = inf_of_sign (- a)"
| "fmul fl PInf (Fin b) = inf_of_sign b"
| "fmul fl NInf (Fin b) = inf_of_sign (- b)"
| "fmul fl PInf PInf = PInf"
| "fmul fl NInf NInf = PInf"
| "fmul fl PInf NInf = NInf"
| "fmul fl NInf PInf = NInf"

text \<open>
  \<^verbatim>\<open>a / b\<close> raises \<^verbatim>\<open>ZeroDivisionError\<close> when \<open>b\<close> is zero. \<open>fdivide\<close> is the
  quotient for a non-zero divisor; \<open>py_truediv\<close> is the operator with its exception.
\<close>

fun fdivide :: "rounding \<Rightarrow> pyfloat \<Rightarrow> pyfloat \<Rightarrow> pyfloat" where
  "fdivide fl NaN y = NaN"
| "fdivide fl x NaN = NaN"
| "fdivide fl (Fin a) (Fin b) = fl (a / b)"
| "fdivide fl (Fin a) PInf = Fin 0"
| "fdivide fl (Fin a) NInf = Fin 0"
| "fdivide fl PInf (Fin b) = (if 0 \<le> b then PInf else NInf)"
| "fdivide fl NInf (Fin b) = (if 0 \<le> b then NInf else PInf)"
| "fdivide fl PInf PInf = NaN"
| "fdivide fl NInf NInf = NaN"
| "fdivide fl PInf NInf = NaN"
| "fdivide fl NInf PInf = NaN"

definition py_truediv :: "rounding \<Rightarrow> pyfloat \<Rightarrow> pyfloat \<Rightarrow> py_error + pyfloat" where
  "py_truediv fl x y = (if y = Fin 0 then Inl ZeroDivisionError else Inr (fdivide fl x y))"

text \<open>
  The rounding of Python's floats: to the nearest double, a tie to the one with the even
  significand. A double of the binade of \<open>2^e\<close> is a multiple of \<open>2^(e - 52)\<close>, below
  \<open>2^-1022\<close> of \<open>2^-1074\<close>, and a result that rounds to \<open>2^1024\<close> or beyond is an
  infinity.
\<close>

definition pow2 :: "int \<Rightarrow> real" where
  "pow2 e = (if 0 \<le> e then 2 ^ nat e else 1 / 2 ^ nat (- e))"

definition round_half_even :: "real \<Rightarrow> int" where
  "round_half_even q =
     (let f = \<lfloor>q\<rfloor> in
      if q - of_int f < 1 / 2 then f
      else if 1 / 2 < q - of_int f then f + 1
      else if even f then f else f + 1)"

definition ieee :: rounding where
  "ieee x =
     (if x = 0 then Fin 0
      else
        let e = max \<lfloor>log 2 \<bar>x\<bar>\<rfloor> (- 1022);
            y = of_int (round_half_even (x / pow2 (e - 52))) * pow2 (e - 52)
        in if 2 ^ 1024 \<le> \<bar>y\<bar> then (if 0 < x then PInf else NInf) else Fin y)"

section \<open>Levels and the best prices\<close>

text \<open>The dataclass \<^verbatim>\<open>Level\<close>: \<^verbatim>\<open>price: float\<close>, \<^verbatim>\<open>size: float\<close>.\<close>

record Level =
  price :: pyfloat
  size_l :: pyfloat

definition finite_level :: "Level \<Rightarrow> bool" where
  "finite_level l = (is_finite (price l) \<and> is_finite (size_l l))"

text \<open>
  \<^verbatim>\<open>max(it, default=None)\<close> keeps the first item and replaces it by a later one that
  compares greater; \<^verbatim>\<open>min\<close> does the same with \<^verbatim>\<open><\<close>.
\<close>

fun py_max :: "pyfloat list \<Rightarrow> pyfloat option" where
  "py_max [] = None"
| "py_max (x # xs) = Some (foldl (\<lambda>m v. if fgt v m then v else m) x xs)"

fun py_min :: "pyfloat list \<Rightarrow> pyfloat option" where
  "py_min [] = None"
| "py_min (x # xs) = Some (foldl (\<lambda>m v. if flt v m then v else m) x xs)"

definition best_bid_ask :: "Level list \<Rightarrow> Level list \<Rightarrow> pyfloat option \<times> pyfloat option" where
  "best_bid_ask bids asks = (py_max (map price bids), py_min (map price asks))"

text \<open>The divisor of \<^verbatim>\<open>midpoint\<close> is the literal \<^verbatim>\<open>2.0\<close>, so the division cannot raise.\<close>

fun midpoint :: "rounding \<Rightarrow> pyfloat option \<Rightarrow> pyfloat option \<Rightarrow> pyfloat option" where
  "midpoint fl None None = None"
| "midpoint fl None (Some a) = Some a"
| "midpoint fl (Some b) None = Some b"
| "midpoint fl (Some b) (Some a) = Some (fdivide fl (fadd fl b a) (Fin 2))"

text \<open>
  \<^verbatim>\<open>sum(it)\<close> starts from \<^verbatim>\<open>0\<close> and adds from the left, rounding every sum
  (CPython before 3.12; later versions carry a compensation for the rounding errors,
  and agree in exact arithmetic).
\<close>

definition py_sum :: "rounding \<Rightarrow> pyfloat list \<Rightarrow> pyfloat" where
  "py_sum fl xs = foldl (fadd fl) (Fin 0) xs"

fun calc_depth ::
    "rounding \<Rightarrow> Level list \<Rightarrow> Level list \<Rightarrow> pyfloat option \<Rightarrow> pyfloat \<Rightarrow> pyfloat option" where
  "calc_depth fl bids asks None band = None"
| "calc_depth fl bids asks (Some m) band =
     (let lo = fsub fl m band;
          hi = fadd fl m band;
          bid_depth = py_sum fl (map size_l (filter (\<lambda>l. fge (price l) lo) bids));
          ask_depth = py_sum fl (map size_l (filter (\<lambda>l. fle (price l) hi) asks))
      in Some (fadd fl bid_depth ask_depth))"

section \<open>The execution-cost simulator\<close>

text \<open>
  \<^verbatim>\<open>sorted(xs, key=k)\<close> is a stable sort that compares keys with \<^verbatim>\<open><\<close> only, and
  its result is a rearrangement of the items. Where the keys are totally ordered (no
  NaN among them) the result is the one stable ascending order, which insertion from
  the right computes.
\<close>

fun insort_lt :: "('a \<Rightarrow> pyfloat) \<Rightarrow> 'a \<Rightarrow> 'a list \<Rightarrow> 'a list" where
  "insort_lt k x [] = [x]"
| "insort_lt k x (y # ys) = (if flt (k y) (k x) then y # insort_lt k x ys else x # y # ys)"

definition stable_sorted :: "('a \<Rightarrow> pyfloat) \<Rightarrow> 'a list \<Rightarrow> 'a list" where
  "stable_sorted k xs = foldr (insort_lt k) xs []"

text \<open>
  With a NaN among the keys \<^verbatim>\<open><\<close> is no order, and which rearrangement comes out
  depends on the comparisons the sorting algorithm of the interpreter happens to make:
  CPython 3.11 leaves \<^verbatim>\<open>[2.0, nan, 1.0]\<close> as it is and turns \<^verbatim>\<open>[3.0, 2.0, nan, 1.0]\<close>
  into \<^verbatim>\<open>[1.0, 2.0, 3.0, nan]\<close>. That choice is a parameter \<open>srt\<close> of every function
  that sorts: \<open>srt ks i\<close> is the rank that the interpreter gives to the item at
  position \<open>i\<close> of a list whose keys are \<open>ks\<close>, and the items come out by ascending
  rank. Every \<open>srt\<close> yields a rearrangement of the items, and the interpreter's order
  is one of them, so what is proved for every \<open>srt\<close> holds for the program. The
  parameter is consulted only when a key is NaN.
\<close>

type_synonym sort_order = "pyfloat list \<Rightarrow> nat \<Rightarrow> nat"

definition by_rank :: "nat list \<Rightarrow> 'a list \<Rightarrow> 'a list" where
  "by_rank ranks xs = map snd (sort_key fst (zip ranks xs))"

definition py_sorted :: "sort_order \<Rightarrow> ('a \<Rightarrow> pyfloat) \<Rightarrow> 'a list \<Rightarrow> 'a list" where
  "py_sorted srt k xs =
     (if NaN \<in> set (map k xs)
      then by_rank (map (srt (map k xs)) [0..<length xs]) xs
      else stable_sorted k xs)"

text \<open>
  The order that leaves a list with a NaN key as it is. It stands for \<open>srt\<close> in the
  examples. It is not the interpreter's order on every list: an example with a NaN key
  is one of a list that CPython leaves as it is.
\<close>

definition input_order :: sort_order where
  "input_order ks i = i"

text \<open>The local variables of \<^verbatim>\<open>buy_avg_fill_price\<close> that its loop updates.\<close>

record walk_vars =
  total_cost :: pyfloat
  total_shares :: pyfloat
  remaining :: pyfloat

text \<open>The literals \<^verbatim>\<open>1e-9\<close> and \<^verbatim>\<open>1e-12\<close>, as the doubles Python reads them as.\<close>

definition eps_budget :: pyfloat where
  "eps_budget = Fin (4835703278458517 / 2 ^ 82)"

definition eps_shares :: pyfloat where
  "eps_shares = Fin (4951760157141521 / 2 ^ 92)"

text \<open>
  The \<^verbatim>\<open>for lvl in asks_sorted\<close> loop. \<^verbatim>\<open>continue\<close> and falling through to the next
  iteration are the recursive calls, each \<^verbatim>\<open>break\<close> returns the variables as they are.
\<close>

fun walk_loop :: "rounding \<Rightarrow> Level list \<Rightarrow> walk_vars \<Rightarrow> py_error + walk_vars" where
  "walk_loop fl [] v = Inr v"
| "walk_loop fl (lvl # rest) v =
     (if fle (price lvl) (Fin 0) then walk_loop fl rest v
      else
        let lvl_cost_full = fmul fl (price lvl) (size_l lvl) in
        if fge (remaining v) lvl_cost_full then
          let v' = \<lparr>total_cost = fadd fl (total_cost v) lvl_cost_full,
                    total_shares = fadd fl (total_shares v) (size_l lvl),
                    remaining = fsub fl (remaining v) lvl_cost_full\<rparr>
          in if fle (remaining v') eps_budget then Inr v' else walk_loop fl rest v'
        else
          (case py_truediv fl (remaining v) (price lvl) of
             Inl e \<Rightarrow> Inl e
           | Inr partial_shares \<Rightarrow>
               Inr \<lparr>total_cost = fadd fl (total_cost v) (remaining v),
                    total_shares = fadd fl (total_shares v) partial_shares,
                    remaining = Fin 0\<rparr>))"

text \<open>The walk from the initial variables over the sorted asks.\<close>

definition walk_asks ::
    "sort_order \<Rightarrow> rounding \<Rightarrow> Level list \<Rightarrow> pyfloat \<Rightarrow> py_error + walk_vars" where
  "walk_asks srt fl asks budget =
     walk_loop fl (py_sorted srt price asks)
       \<lparr>total_cost = Fin 0, total_shares = Fin 0, remaining = budget\<rparr>"

definition buy_avg_fill_price ::
    "sort_order \<Rightarrow> rounding \<Rightarrow> Level list \<Rightarrow> pyfloat \<Rightarrow> py_error + pyfloat option" where
  "buy_avg_fill_price srt fl asks budget =
     (if fle budget (Fin 0) \<or> asks = [] then Inr None
      else
        (case walk_asks srt fl asks budget of
           Inl e \<Rightarrow> Inl e
         | Inr v \<Rightarrow>
             if fle (total_shares v) eps_shares then Inr None
             else
               (case py_truediv fl (total_cost v) (total_shares v) of
                  Inl e \<Rightarrow> Inl e
                | Inr avg \<Rightarrow> Inr (Some avg))))"

section \<open>Raw records\<close>

text \<open>
  \<^verbatim>\<open>load_orderbooks\<close> returns what \<^verbatim>\<open>json.loads\<close> read: \<^verbatim>\<open>None\<close>, booleans,
  integers, floats (among them \<^verbatim>\<open>Infinity\<close> and \<^verbatim>\<open>NaN\<close>, which \<^verbatim>\<open>json.loads\<close>
  accepts), strings, lists and dicts. A dict is given by the members of the JSON object
  in the order of the text; of two members with one key the later one is the dict's.
  A string is a list of characters, and a character is a code point below 256.
\<close>

datatype json =
  JNull | JBool bool | JInt int | JFloat pyfloat | JStr string
  | JArr "json list" | JObj "(string \<times> json) list"

text \<open>Truth value of an object, as \<^verbatim>\<open>or\<close> tests it; \<^verbatim>\<open>a or b\<close>.\<close>

fun truthy :: "json \<Rightarrow> bool" where
  "truthy JNull = False"
| "truthy (JBool b) = b"
| "truthy (JInt n) = (n \<noteq> 0)"
| "truthy (JFloat f) = (f \<noteq> Fin 0)"
| "truthy (JStr s) = (s \<noteq> [])"
| "truthy (JArr xs) = (xs \<noteq> [])"
| "truthy (JObj kvs) = (kvs \<noteq> [])"

definition py_or :: "json \<Rightarrow> json \<Rightarrow> json" where
  "py_or a b = (if truthy a then a else b)"

text \<open>
  \<^verbatim>\<open>ob.get(key, default)\<close>: only a dict has the method. \<^verbatim>\<open>x[key]\<close> with a string
  key: a dict without the key raises \<^verbatim>\<open>KeyError\<close>, every other JSON value raises
  \<^verbatim>\<open>TypeError\<close>.
\<close>

definition dict_lookup :: "(string \<times> json) list \<Rightarrow> string \<Rightarrow> json option" where
  "dict_lookup kvs key = map_of (rev kvs) key"

fun py_get :: "json \<Rightarrow> string \<Rightarrow> json \<Rightarrow> py_error + json" where
  "py_get (JObj kvs) key dflt =
     (case dict_lookup kvs key of None \<Rightarrow> Inr dflt | Some v \<Rightarrow> Inr v)"
| "py_get ob key dflt = Inl AttributeError"

fun py_getitem :: "json \<Rightarrow> string \<Rightarrow> py_error + json" where
  "py_getitem (JObj kvs) key =
     (case dict_lookup kvs key of None \<Rightarrow> Inl KeyError | Some v \<Rightarrow> Inr v)"
| "py_getitem x key = Inl TypeError"

text \<open>
  What \<^verbatim>\<open>for x in v\<close> iterates over: the items of a list, the characters of a string,
  the keys of a dict in the order of their first insertion; \<^verbatim>\<open>None\<close>, booleans and
  numbers are not iterable.
\<close>

fun py_iter :: "json \<Rightarrow> py_error + json list" where
  "py_iter (JArr xs) = Inr xs"
| "py_iter (JStr s) = Inr (map (\<lambda>c. JStr [c]) s)"
| "py_iter (JObj kvs) = Inr (map JStr (rev (remdups (rev (map fst kvs)))))"
| "py_iter v = Inl TypeError"

subsection \<open>\<^verbatim>\<open>float(x)\<close>\<close>

text \<open>
  A float literal in a string. \<^verbatim>\<open>float\<close> first turns every white-space character
  above the ASCII range into a space (below 256 these are U+0085 and U+00A0). Then
  surrounding ASCII whitespace is stripped, an underscore may stand between two digits,
  and there remains an optional sign and either \<^verbatim>\<open>inf\<close>, \<^verbatim>\<open>infinity\<close> or \<^verbatim>\<open>nan\<close> in
  any case, or a decimal number with an optional exponent, which is rounded to a float.
  Any other character makes \<^verbatim>\<open>float\<close> raise \<^verbatim>\<open>ValueError\<close>. An integer whose rounding
  is not finite raises \<^verbatim>\<open>OverflowError\<close>.
\<close>

definition to_ascii_space :: "char \<Rightarrow> char" where
  "to_ascii_space c = (if c \<in> set [CHR 0x85, CHR 0xA0] then CHR '' '' else c)"

definition is_space :: "char \<Rightarrow> bool" where
  "is_space c = (c \<in> set [CHR 0x09, CHR 0x0A, CHR 0x0B, CHR 0x0C, CHR 0x0D, CHR '' ''])"

definition strip :: "string \<Rightarrow> string" where
  "strip s = rev (dropWhile is_space (rev (dropWhile is_space s)))"

definition is_digit :: "char \<Rightarrow> bool" where
  "is_digit c = (c \<in> set ''0123456789'')"

definition digit_val :: "char \<Rightarrow> nat" where
  "digit_val c = (of_char c :: nat) - 48"

definition digits_val :: "string \<Rightarrow> nat" where
  "digits_val ds = foldl (\<lambda>n c. 10 * n + digit_val c) 0 ds"

definition lower :: "char \<Rightarrow> char" where
  "lower c =
     (let n = (of_char c :: nat) in if 65 \<le> n \<and> n \<le> 90 then char_of (n + 32) else c)"

text \<open>Removes the underscores, each of which must follow a digit and precede a digit.\<close>

fun drop_underscores :: "char option \<Rightarrow> string \<Rightarrow> string option" where
  "drop_underscores prev [] = (if prev = Some CHR ''_'' then None else Some [])"
| "drop_underscores prev (c # cs) =
     (if c = CHR ''_'' then
        (case prev of
           None \<Rightarrow> None
         | Some p \<Rightarrow> if is_digit p then drop_underscores (Some c) cs else None)
      else if prev = Some CHR ''_'' \<and> \<not> is_digit c then None
      else map_option ((#) c) (drop_underscores (Some c) cs))"

definition split_sign :: "string \<Rightarrow> bool \<times> string" where
  "split_sign s =
     (case s of
        [] \<Rightarrow> (False, [])
      | c # cs \<Rightarrow> if c = CHR ''-'' then (True, cs) else if c = CHR ''+'' then (False, cs)
                  else (False, s))"

text \<open>The exponent part: empty, or \<^verbatim>\<open>e\<close>, an optional sign and at least one digit.\<close>

definition parse_exponent :: "string \<Rightarrow> int option" where
  "parse_exponent s =
     (case s of
        [] \<Rightarrow> Some 0
      | c # cs \<Rightarrow>
          if lower c = CHR ''e'' then
            (let (neg, ds) = split_sign cs in
             if ds \<noteq> [] \<and> list_all is_digit ds
             then Some (if neg then - int (digits_val ds) else int (digits_val ds))
             else None)
          else None)"

definition parse_decimal :: "string \<Rightarrow> real option" where
  "parse_decimal s =
     (let ip = takeWhile is_digit s;
          s2 = dropWhile is_digit s;
          has_point = (s2 \<noteq> [] \<and> hd s2 = CHR ''.'');
          fp = (if has_point then takeWhile is_digit (tl s2) else []);
          s3 = (if has_point then dropWhile is_digit (tl s2) else s2)
      in if ip = [] \<and> fp = [] then None
         else
           (case parse_exponent s3 of
              None \<Rightarrow> None
            | Some e \<Rightarrow>
                let m = real (digits_val (ip @ fp)); e' = e - int (length fp)
                in Some (if 0 \<le> e' then m * 10 ^ nat e' else m / 10 ^ nat (- e'))))"

definition float_of_str :: "rounding \<Rightarrow> string \<Rightarrow> pyfloat option" where
  "float_of_str fl s =
     (case drop_underscores None (strip (map to_ascii_space s)) of
        None \<Rightarrow> None
      | Some t \<Rightarrow>
          let (neg, body) = split_sign t; name = map lower body
          in if name = ''inf'' \<or> name = ''infinity'' then Some (if neg then NInf else PInf)
             else if name = ''nan'' then Some NaN
             else map_option (\<lambda>r. fl (if neg then - r else r)) (parse_decimal body))"

fun py_float :: "rounding \<Rightarrow> json \<Rightarrow> py_error + pyfloat" where
  "py_float fl (JFloat f) = Inr f"
| "py_float fl (JInt n) =
     (if is_finite (fl (real_of_int n)) then Inr (fl (real_of_int n)) else Inl OverflowError)"
| "py_float fl (JBool b) = Inr (Fin (if b then 1 else 0))"
| "py_float fl (JStr s) =
     (case float_of_str fl s of None \<Rightarrow> Inl ValueError | Some f \<Rightarrow> Inr f)"
| "py_float fl v = Inl TypeError"

section \<open>The level parser\<close>

text \<open>
  The body of the \<^verbatim>\<open>try\<close>: \<^verbatim>\<open>Level(price=float(x["price"]), size=float(x["size"]))\<close>,
  the arguments evaluated from the left.
\<close>

definition level_of :: "rounding \<Rightarrow> json \<Rightarrow> py_error + Level" where
  "level_of fl x =
     (case py_getitem x ''price'' of
        Inl e \<Rightarrow> Inl e
      | Inr pv \<Rightarrow>
          (case py_float fl pv of
             Inl e \<Rightarrow> Inl e
           | Inr p \<Rightarrow>
               (case py_getitem x ''size'' of
                  Inl e \<Rightarrow> Inl e
                | Inr sv \<Rightarrow>
                    (case py_float fl sv of
                       Inl e \<Rightarrow> Inl e
                     | Inr s \<Rightarrow> Inr \<lparr>price = p, size_l = s\<rparr>))))"

text \<open>The loop body: \<^verbatim>\<open>except Exception: continue\<close> catches every exception of the \<^verbatim>\<open>try\<close>.\<close>

fun parse_loop :: "rounding \<Rightarrow> json list \<Rightarrow> Level list \<Rightarrow> Level list" where
  "parse_loop fl [] out = out"
| "parse_loop fl (x # xs) out =
     (case level_of fl x of
        Inl e \<Rightarrow> parse_loop fl xs out
      | Inr l \<Rightarrow> parse_loop fl xs (out @ [l]))"

text \<open>
  \<^verbatim>\<open>for x in side_levels or []\<close> stands outside the \<^verbatim>\<open>try\<close>: what it raises leaves
  \<^verbatim>\<open>parse_levels\<close>.
\<close>

definition parse_levels :: "rounding \<Rightarrow> json \<Rightarrow> py_error + Level list" where
  "parse_levels fl side_levels =
     (case py_iter (py_or side_levels (JArr [])) of
        Inl e \<Rightarrow> Inl e
      | Inr xs \<Rightarrow> Inr (parse_loop fl xs []))"

section \<open>The orchestrator: the loop of \<^verbatim>\<open>main\<close>\<close>

text \<open>
  One row of \<^verbatim>\<open>gold_rows\<close>. \<^verbatim>\<open>main\<close> stores \<^verbatim>\<open>str(v)\<close> in the two identity
  fields; \<^verbatim>\<open>str\<close> is defined on every value and the row keeps its argument \<open>v\<close>.
  The rows of the level export, written to a file between parsing and the metrics, and
  the file output after the loop are not part of the model.
\<close>

record gold_row =
  snapshot_ts :: json
  token_id :: json
  best_bid :: "pyfloat option"
  best_ask :: "pyfloat option"
  mid :: "pyfloat option"
  spread :: "pyfloat option"
  depth_1pt :: "pyfloat option"
  slippage_buy_10 :: "pyfloat option"
  slippage_buy_50 :: "pyfloat option"
  slippage_buy_200 :: "pyfloat option"
  score :: "pyfloat option"

text \<open>The literal \<^verbatim>\<open>0.01\<close>, as the double Python reads it as.\<close>

definition DEPTH_BAND :: pyfloat where
  "DEPTH_BAND = Fin (5764607523034235 / 2 ^ 59)"

text \<open>\<^verbatim>\<open>spread = None if (bb is None or ba is None) else (ba - bb)\<close>\<close>

fun spread_of :: "rounding \<Rightarrow> pyfloat option \<Rightarrow> pyfloat option \<Rightarrow> pyfloat option" where
  "spread_of fl (Some bb) (Some ba) = Some (fsub fl ba bb)"
| "spread_of fl bb ba = None"

text \<open>\<^verbatim>\<open>baseline = mid if mid is not None else ba\<close>\<close>

fun baseline_of :: "pyfloat option \<Rightarrow> pyfloat option \<Rightarrow> pyfloat option" where
  "baseline_of (Some m) ba = Some m"
| "baseline_of None ba = ba"

text \<open>\<^verbatim>\<open>sl = None if (avg is None or baseline is None) else (avg - baseline)\<close>\<close>

fun slippage_of :: "rounding \<Rightarrow> pyfloat option \<Rightarrow> pyfloat option \<Rightarrow> pyfloat option" where
  "slippage_of fl (Some avg) (Some baseline) = Some (fsub fl avg baseline)"
| "slippage_of fl avg baseline = None"

text \<open>
  \<^verbatim>\<open>score = None\<close>, replaced by
  \<^verbatim>\<open>(depth / 1000.0) - (spread * 3.0) - (sl50 * 4.0)\<close> when the three are not \<^verbatim>\<open>None\<close>.
\<close>

fun score_of ::
    "rounding \<Rightarrow> pyfloat option \<Rightarrow> pyfloat option \<Rightarrow> pyfloat option \<Rightarrow> pyfloat option" where
  "score_of fl (Some depth) (Some sp) (Some sl50) =
     Some (fsub fl (fsub fl (fdivide fl depth (Fin 1000)) (fmul fl sp (Fin 3)))
             (fmul fl sl50 (Fin 4)))"
| "score_of fl depth sp sl50 = None"

text \<open>The metrics of one book, from \<^verbatim>\<open>bb, ba = best_bid_ask(bids, asks)\<close> to the row.\<close>

definition book_metrics ::
    "sort_order \<Rightarrow> rounding \<Rightarrow> json \<Rightarrow> json \<Rightarrow> Level list \<Rightarrow> Level list
       \<Rightarrow> py_error + gold_row" where
  "book_metrics srt fl snap_ts tok bids asks =
     (let (bb, ba) = best_bid_ask bids asks;
          m = midpoint fl bb ba;
          sp = spread_of fl bb ba;
          depth = calc_depth fl bids asks m DEPTH_BAND
      in case buy_avg_fill_price srt fl asks (Fin 10) of
           Inl e \<Rightarrow> Inl e
         | Inr avg10 \<Rightarrow>
        (case buy_avg_fill_price srt fl asks (Fin 50) of
           Inl e \<Rightarrow> Inl e
         | Inr avg50 \<Rightarrow>
        (case buy_avg_fill_price srt fl asks (Fin 200) of
           Inl e \<Rightarrow> Inl e
         | Inr avg200 \<Rightarrow>
             let baseline = baseline_of m ba;
                 sl10 = slippage_of fl avg10 baseline;
                 sl50 = slippage_of fl avg50 baseline;
                 sl200 = slippage_of fl avg200 baseline
             in Inr \<lparr>snapshot_ts = snap_ts, token_id = tok,
                      best_bid = bb, best_ask = ba, mid = m, spread = sp,
                      depth_1pt = depth,
                      slippage_buy_10 = sl10, slippage_buy_50 = sl50,
                      slippage_buy_200 = sl200,
                      score = score_of fl depth sp sl50\<rparr>)))"

text \<open>
  One iteration of \<^verbatim>\<open>for ob in orderbooks\<close>. The first \<^verbatim>\<open>ob.get\<close> raises on a record
  that is not a dict; after it the other \<^verbatim>\<open>get\<close>s cannot raise.
\<close>

definition process_record :: "sort_order \<Rightarrow> rounding \<Rightarrow> json \<Rightarrow> py_error + gold_row" where
  "process_record srt fl ob =
     (case py_get ob ''asset_id'' JNull of
        Inl e \<Rightarrow> Inl e
      | Inr aid \<Rightarrow>
     (case py_get ob ''token_id'' JNull of
        Inl e \<Rightarrow> Inl e
      | Inr tid \<Rightarrow>
     (case py_get ob ''timestamp'' JNull of
        Inl e \<Rightarrow> Inl e
      | Inr ts \<Rightarrow>
     (case py_get ob ''bids'' (JArr []) of
        Inl e \<Rightarrow> Inl e
      | Inr raw_bids \<Rightarrow>
     (case parse_levels fl raw_bids of
        Inl e \<Rightarrow> Inl e
      | Inr bids \<Rightarrow>
     (case py_get ob ''asks'' (JArr []) of
        Inl e \<Rightarrow> Inl e
      | Inr raw_asks \<Rightarrow>
     (case parse_levels fl raw_asks of
        Inl e \<Rightarrow> Inl e
      | Inr asks \<Rightarrow>
          book_metrics srt fl (py_or ts (JStr [])) (py_or (py_or aid tid) (JStr []))
            bids asks)))))))"

text \<open>The loop: an exception of one iteration leaves \<^verbatim>\<open>main\<close>, and no row is written.\<close>

fun main_loop ::
    "sort_order \<Rightarrow> rounding \<Rightarrow> json list \<Rightarrow> gold_row list \<Rightarrow> py_error + gold_row list" where
  "main_loop srt fl [] gold_rows = Inr gold_rows"
| "main_loop srt fl (ob # obs) gold_rows =
     (case process_record srt fl ob of
        Inl e \<Rightarrow> Inl e
      | Inr r \<Rightarrow> main_loop srt fl obs (gold_rows @ [r]))"

definition run_batch ::
    "sort_order \<Rightarrow> rounding \<Rightarrow> json list \<Rightarrow> py_error + gold_row list" where
  "run_batch srt fl orderbooks = main_loop srt fl orderbooks []"

section \<open>The simulator on a store of objects\<close>

text \<open>
  \<^verbatim>\<open>buy_avg_fill_price\<close> receives a reference to a list of references to \<^verbatim>\<open>Level\<close>
  objects, which it could assign to. Here the objects live in a store:
  \<open>level_objs\<close> gives the fields of each \<^verbatim>\<open>Level\<close> object, \<open>list_objs\<close> the items of
  each list object, and list references from \<open>next_ref\<close> on are free. \<^verbatim>\<open>sorted\<close>
  allocates the list it returns; the loop reads \<^verbatim>\<open>lvl.price\<close> and \<^verbatim>\<open>lvl.size\<close>
  through the references of that list.
\<close>

record store =
  level_objs :: "nat \<Rightarrow> Level"
  list_objs :: "nat \<Rightarrow> nat list"
  next_ref :: nat

definition sorted_h :: "sort_order \<Rightarrow> store \<Rightarrow> nat \<Rightarrow> store \<times> nat" where
  "sorted_h srt s xs_ref =
     (let ys = py_sorted srt (\<lambda>r. price (level_objs s r)) (list_objs s xs_ref);
          new = next_ref s
      in (s\<lparr>list_objs := (list_objs s)(new := ys), next_ref := Suc new\<rparr>, new))"

fun walk_loop_h ::
    "rounding \<Rightarrow> store \<Rightarrow> nat list \<Rightarrow> walk_vars \<Rightarrow> store \<times> (py_error + walk_vars)" where
  "walk_loop_h fl s [] v = (s, Inr v)"
| "walk_loop_h fl s (r # rest) v =
     (if fle (price (level_objs s r)) (Fin 0) then walk_loop_h fl s rest v
      else
        let lvl_cost_full = fmul fl (price (level_objs s r)) (size_l (level_objs s r)) in
        if fge (remaining v) lvl_cost_full then
          let v' = \<lparr>total_cost = fadd fl (total_cost v) lvl_cost_full,
                    total_shares = fadd fl (total_shares v) (size_l (level_objs s r)),
                    remaining = fsub fl (remaining v) lvl_cost_full\<rparr>
          in if fle (remaining v') eps_budget then (s, Inr v') else walk_loop_h fl s rest v'
        else
          (case py_truediv fl (remaining v) (price (level_objs s r)) of
             Inl e \<Rightarrow> (s, Inl e)
           | Inr partial_shares \<Rightarrow>
               (s, Inr \<lparr>total_cost = fadd fl (total_cost v) (remaining v),
                        total_shares = fadd fl (total_shares v) partial_shares,
                        remaining = Fin 0\<rparr>)))"

definition buy_avg_fill_price_h ::
    "sort_order \<Rightarrow> rounding \<Rightarrow> store \<Rightarrow> nat \<Rightarrow> pyfloat
       \<Rightarrow> store \<times> (py_error + pyfloat option)" where
  "buy_avg_fill_price_h srt fl s asks budget =
     (if fle budget (Fin 0) \<or> list_objs s asks = [] then (s, Inr None)
      else
        let (s1, asks_sorted) = sorted_h srt s asks;
            (s2, res) = walk_loop_h fl s1 (list_objs s1 asks_sorted)
                          \<lparr>total_cost = Fin 0, total_shares = Fin 0, remaining = budget\<rparr>
        in case res of
             Inl e \<Rightarrow> (s2, Inl e)
           | Inr v \<Rightarrow>
               if fle (total_shares v) eps_shares then (s2, Inr None)
               else
                 (case py_truediv fl (total_cost v) (total_shares v) of
                    Inl e \<Rightarrow> (s2, Inl e)
                  | Inr avg \<Rightarrow> (s2, Inr (Some avg))))"

text \<open>The three calls of \<^verbatim>\<open>main\<close> on one \<^verbatim>\<open>asks\<close>, one after the other.\<close>

definition three_budgets_h ::
    "sort_order \<Rightarrow> rounding \<Rightarrow> store \<Rightarrow> nat \<Rightarrow>
     store \<times> (py_error + pyfloat option) \<times> (py_error + pyfloat option)
       \<times> (py_error + pyfloat option)" where
  "three_budgets_h srt fl s asks =
     (let (s1, avg10) = buy_avg_fill_price_h srt fl s asks (Fin 10);
          (s2, avg50) = buy_avg_fill_price_h srt fl s1 asks (Fin 50);
          (s3, avg200) = buy_avg_fill_price_h srt fl s2 asks (Fin 200)
      in (s3, avg10, avg50, avg200))"

section \<open>The specification's descriptions\<close>

text \<open>
  The greedy book walk in the specification's words: spent cash, filled shares and
  remaining budget. A level whose cost fits the remaining budget is consumed entirely,
  the first one that does not fit is filled in part and ends the walk.
\<close>

record fill_state =
  spent :: pyfloat
  filled :: pyfloat
  budget_left :: pyfloat

definition consume_level :: "rounding \<Rightarrow> Level \<Rightarrow> fill_state \<Rightarrow> fill_state" where
  "consume_level fl l st =
     \<lparr>spent = fadd fl (spent st) (fmul fl (price l) (size_l l)),
      filled = fadd fl (filled st) (size_l l),
      budget_left = fsub fl (budget_left st) (fmul fl (price l) (size_l l))\<rparr>"

definition partial_fill :: "rounding \<Rightarrow> Level \<Rightarrow> fill_state \<Rightarrow> fill_state" where
  "partial_fill fl l st =
     \<lparr>spent = fadd fl (spent st) (budget_left st),
      filled = fadd fl (filled st) (fdivide fl (budget_left st) (price l)),
      budget_left = Fin 0\<rparr>"

text \<open>The walk with no other stop than the partial fill.\<close>

fun claimed_walk :: "rounding \<Rightarrow> Level list \<Rightarrow> fill_state \<Rightarrow> fill_state" where
  "claimed_walk fl [] st = st"
| "claimed_walk fl (l # ls) st =
     (if fge (budget_left st) (fmul fl (price l) (size_l l))
      then claimed_walk fl ls (consume_level fl l st)
      else partial_fill fl l st)"

text \<open>
  The walk that also stops once a consumed level leaves a remaining budget of at most
  \<open>1e-9\<close>.
\<close>

fun greedy_walk :: "rounding \<Rightarrow> Level list \<Rightarrow> fill_state \<Rightarrow> fill_state" where
  "greedy_walk fl [] st = st"
| "greedy_walk fl (l # ls) st =
     (if fge (budget_left st) (fmul fl (price l) (size_l l))
      then (if fle (budget_left (consume_level fl l st)) eps_budget then consume_level fl l st
            else greedy_walk fl ls (consume_level fl l st))
      else partial_fill fl l st)"

text \<open>The levels a walk visits: sorted by price, those of non-positive price left out.\<close>

definition visited_levels :: "sort_order \<Rightarrow> Level list \<Rightarrow> Level list" where
  "visited_levels srt asks =
     filter (\<lambda>l. \<not> fle (price l) (Fin 0)) (py_sorted srt price asks)"

definition claimed_fill ::
    "sort_order \<Rightarrow> rounding \<Rightarrow> Level list \<Rightarrow> pyfloat \<Rightarrow> fill_state" where
  "claimed_fill srt fl asks budget =
     claimed_walk fl (visited_levels srt asks)
       \<lparr>spent = Fin 0, filled = Fin 0, budget_left = budget\<rparr>"

definition greedy_fill ::
    "sort_order \<Rightarrow> rounding \<Rightarrow> Level list \<Rightarrow> pyfloat \<Rightarrow> fill_state" where
  "greedy_fill srt fl asks budget =
     greedy_walk fl (visited_levels srt asks)
       \<lparr>spent = Fin 0, filled = Fin 0, budget_left = budget\<rparr>"

text \<open>
  The coercion of one field of a raw level record: absent when the field is missing or
  \<^verbatim>\<open>float\<close> rejects its value.
\<close>

definition coerce_field :: "rounding \<Rightarrow> json \<Rightarrow> string \<Rightarrow> pyfloat option" where
  "coerce_field fl x key =
     (case py_getitem x key of
        Inl e \<Rightarrow> None
      | Inr v \<Rightarrow> (case py_float fl v of Inl e \<Rightarrow> None | Inr f \<Rightarrow> Some f))"

definition coerced_level :: "rounding \<Rightarrow> json \<Rightarrow> Level option" where
  "coerced_level fl x =
     (case (coerce_field fl x ''price'', coerce_field fl x ''size'') of
        (Some p, Some s) \<Rightarrow> Some \<lparr>price = p, size_l = s\<rparr>
      | _ \<Rightarrow> None)"

text \<open>
  A side field that \<^verbatim>\<open>parse_levels\<close> can iterate over: a false value, or a list, a
  string or a dict. A record the loop of \<^verbatim>\<open>main\<close> gets through: a dict whose
  \<^verbatim>\<open>bids\<close> and \<^verbatim>\<open>asks\<close>, where present, are such fields.
\<close>

fun iterable :: "json \<Rightarrow> bool" where
  "iterable (JArr xs) = True"
| "iterable (JStr s) = True"
| "iterable (JObj kvs) = True"
| "iterable v = False"

definition side_ok :: "json \<Rightarrow> bool" where
  "side_ok v = (\<not> truthy v \<or> iterable v)"

fun record_ok :: "json \<Rightarrow> bool" where
  "record_ok (JObj kvs) =
     ((case dict_lookup kvs ''bids'' of None \<Rightarrow> True | Some v \<Rightarrow> side_ok v)
      \<and> (case dict_lookup kvs ''asks'' of None \<Rightarrow> True | Some v \<Rightarrow> side_ok v))"
| "record_ok ob = False"

text \<open>
  The levels \<^verbatim>\<open>main\<close> parses from one side of a record, and the records that yield
  no level on either side.
\<close>

definition parsed_side :: "rounding \<Rightarrow> json \<Rightarrow> string \<Rightarrow> py_error + Level list" where
  "parsed_side fl ob key =
     (case py_get ob key (JArr []) of Inl e \<Rightarrow> Inl e | Inr v \<Rightarrow> parse_levels fl v)"

definition no_levels :: "rounding \<Rightarrow> json \<Rightarrow> bool" where
  "no_levels fl ob =
     (parsed_side fl ob ''bids'' = Inr [] \<and> parsed_side fl ob ''asks'' = Inr [])"

text \<open>All derived fields of a row are absent.\<close>

definition all_absent :: "gold_row \<Rightarrow> bool" where
  "all_absent r =
     (best_bid r = None \<and> best_ask r = None \<and> mid r = None \<and> spread r = None
      \<and> depth_1pt r = None \<and> slippage_buy_10 r = None \<and> slippage_buy_50 r = None
      \<and> slippage_buy_200 r = None \<and> score r = None)"

text \<open>
  Invariants of the walk in exact arithmetic, for a budget \<open>b\<close>: cost and remaining
  budget are finite, add up to \<open>b\<close> and the remaining budget is not negative, unless a
  level of infinite negative cost has turned them into \<open>-inf\<close> and \<open>inf\<close>, or the cost
  into NaN. On finite levels the three variables stay finite.
\<close>

definition budget_inv :: "real \<Rightarrow> walk_vars \<Rightarrow> bool" where
  "budget_inv b v =
     ((\<exists>c r. total_cost v = Fin c \<and> remaining v = Fin r \<and> c + r = b \<and> 0 \<le> r)
      \<or> (total_cost v = NInf \<and> remaining v = PInf)
      \<or> total_cost v = NaN)"

definition finite_vars :: "walk_vars \<Rightarrow> bool" where
  "finite_vars v =
     (is_finite (total_cost v) \<and> is_finite (total_shares v) \<and> is_finite (remaining v))"

section \<open>Properties\<close>

subsection \<open>Comparison and exact arithmetic\<close>

lemma fle_Fin [simp]: "fle (Fin a) (Fin b) = (a \<le> b)"
  by (auto simp: fle_def)

lemma fge_Fin [simp]: "fge (Fin a) (Fin b) = (b \<le> a)"
  by (simp add: fge_def)

lemma fgt_Fin [simp]: "fgt (Fin a) (Fin b) = (b < a)"
  by (simp add: fgt_def)

lemma fsub_Fin [simp]: "fsub fl (Fin a) (Fin b) = fl (a - b)"
  by (simp add: fsub_def)

lemma fadd_exact_assoc: "fadd Fin (fadd Fin x y) z = fadd Fin x (fadd Fin y z)"
  by (cases x; cases y; cases z) simp_all

lemma fadd_exact_zero_left [simp]: "fadd Fin (Fin 0) x = x"
  by (cases x) simp_all

lemma not_fle_zero_nonzero: "\<not> fle x (Fin 0) \<Longrightarrow> x \<noteq> Fin 0"
  by (auto simp: fle_def)

lemma not_fle_eps_nonzero: "\<not> fle x eps_shares \<Longrightarrow> x \<noteq> Fin 0"
  by (auto simp: eps_shares_def)

lemma is_finite_Fin: "is_finite x \<Longrightarrow> \<exists>r. x = Fin r"
  by (cases x) simp_all

lemma fle_total: "x \<noteq> NaN \<Longrightarrow> y \<noteq> NaN \<Longrightarrow> \<not> flt y x \<Longrightarrow> fle x y"
  by (cases x; cases y) (auto simp: fle_def)

lemma flt_imp_fle: "flt x y \<Longrightarrow> fle x y"
  by (cases x; cases y) (auto simp: fle_def)

lemma fle_trans: "fle x y \<Longrightarrow> fle y z \<Longrightarrow> fle x z"
  by (cases x; cases y; cases z) (auto simp: fle_def)

lemma fgt_not_fle: "fgt x y \<Longrightarrow> \<not> fle x y"
  by (cases x; cases y) (auto simp: fgt_def fle_def)

subsection \<open>Evaluating the rounding\<close>

lemma pow2_powr: "pow2 e = 2 powr (of_int e)"
proof (cases "0 \<le> e")
  case True
  then have "2 powr (of_int e) = (2::real) powr (real (nat e))" by simp
  also have "\<dots> = 2 ^ nat e" by (simp add: powr_realpow)
  finally show ?thesis using True by (simp add: pow2_def)
next
  case False
  then have "2 powr (of_int e) = (2::real) powr (- real (nat (- e)))" by simp
  also have "\<dots> = 1 / 2 ^ nat (- e)" by (simp add: powr_minus powr_realpow divide_simps)
  finally show ?thesis using False by (simp add: pow2_def)
qed

lemma pow2_add: "pow2 (a + b) = pow2 a * pow2 b"
  by (simp add: pow2_powr powr_add)

lemma pow2_pos: "0 < pow2 e"
  by (simp add: pow2_powr)

lemma pow2_mono: "a \<le> b \<Longrightarrow> pow2 a \<le> pow2 b"
  by (simp add: pow2_powr)

lemma floor_log2: "0 < x \<Longrightarrow> pow2 e \<le> x \<Longrightarrow> x < pow2 (e + 1) \<Longrightarrow> \<lfloor>log 2 x\<rfloor> = e"
  using floor_log_eq_powr_iff [of x 2 e] by (simp add: pow2_powr)

lemma round_half_even_bounds:
  "\<lfloor>q\<rfloor> \<le> round_half_even q \<and> round_half_even q \<le> \<lfloor>q\<rfloor> + 1"
  by (simp add: round_half_even_def Let_def)

lemma round_half_even_abs:
  assumes "\<bar>q\<bar> < of_int n"
  shows "\<bar>round_half_even q\<bar> \<le> n"
proof -
  from assms have "- of_int n < q" "q < of_int n" by linarith+
  then have "- n \<le> \<lfloor>q\<rfloor>" "\<lfloor>q\<rfloor> + 1 \<le> n"
    by (simp_all add: le_floor_iff floor_less_iff) linarith+
  with round_half_even_bounds [of q] show ?thesis by linarith
qed

text \<open>
  The rounding of a number of the binade of \<open>2^e\<close>, which no \<open>log\<close> is left in: for
  a number written out, the simplifier computes the double.
\<close>

lemma ieee_binade:
  assumes lo: "pow2 e \<le> \<bar>x\<bar>" and hi: "\<bar>x\<bar> < pow2 (e + 1)"
    and emin: "- 1022 \<le> e" and emax: "e \<le> 1022"
  shows "ieee x = Fin (of_int (round_half_even (x / pow2 (e - 52))) * pow2 (e - 52))"
proof -
  from lo pow2_pos [of e] have nz: "x \<noteq> 0" by auto
  then have pos: "0 < \<bar>x\<bar>" by simp
  from floor_log2 [OF pos lo hi] emin have e: "max \<lfloor>log 2 \<bar>x\<bar>\<rfloor> (- 1022) = e" by simp
  let ?u = "pow2 (e - 52)"
  let ?n = "round_half_even (x / ?u)"
  have u: "0 < ?u" by (rule pow2_pos)
  have "e + 1 = 53 + (e - 52)" by simp
  then have "pow2 (e + 1) = pow2 53 * ?u" by (simp only: pow2_add)
  moreover have p53: "pow2 53 = 2 ^ 53" by (simp add: pow2_def)
  ultimately have top: "pow2 (e + 1) = 2 ^ 53 * ?u" by simp
  with hi u have "\<bar>x / ?u\<bar> < 2 ^ 53" by (simp add: field_simps abs_mult)
  then have "\<bar>x / ?u\<bar> < of_int (2 ^ 53)" by simp
  then have n: "\<bar>?n\<bar> \<le> 2 ^ 53" by (rule round_half_even_abs)
  have "\<bar>of_int ?n * ?u\<bar> = \<bar>of_int ?n :: real\<bar> * ?u" using u by (simp add: abs_mult)
  also have "\<dots> \<le> 2 ^ 53 * ?u"
  proof -
    from n have "\<bar>of_int ?n :: real\<bar> \<le> of_int (2 ^ 53)"
      by (metis of_int_abs of_int_le_iff)
    with u show ?thesis by simp
  qed
  also have "\<dots> = pow2 (e + 1)" using top by simp
  also have "\<dots> \<le> pow2 1023" using emax by (intro pow2_mono) simp
  also have "\<dots> < 2 ^ 1024" by (simp add: pow2_def)
  finally have "\<not> 2 ^ 1024 \<le> \<bar>of_int ?n * ?u\<bar>" by simp
  with nz e show ?thesis by (simp add: ieee_def Let_def)
qed

lemma ieee_zero: "ieee 0 = Fin 0"
  by (simp add: ieee_def)

subsection \<open>Midpoint\<close>

text \<open>
  C5. Whatever the rounding, the midpoint of two absent best prices is absent, that of
  one present price is that price, and that of two present prices is their sum divided
  by 2, in exact arithmetic the mean \<open>(x + y) / 2\<close>. With no bids and at least one ask
  the best bid is absent, the best ask present, and the midpoint is the best ask.
\<close>

theorem midpoint_rule:
  "midpoint fl None None = None
   \<and> midpoint fl (Some b) None = Some b
   \<and> midpoint fl None (Some a) = Some a
   \<and> midpoint fl (Some b) (Some a) = Some (fdivide fl (fadd fl b a) (Fin 2))
   \<and> midpoint Fin (Some (Fin x)) (Some (Fin y)) = Some (Fin ((x + y) / 2))
   \<and> (asks \<noteq> [] \<longrightarrow>
        fst (best_bid_ask [] asks) = None
        \<and> snd (best_bid_ask [] asks) \<noteq> None
        \<and> midpoint fl (fst (best_bid_ask [] asks)) (snd (best_bid_ask [] asks))
            = snd (best_bid_ask [] asks))"
  by (cases asks) (simp_all add: best_bid_ask_def)

theorem midpoint_rule_witness:
  "[\<lparr>price = Fin 2, size_l = Fin 100\<rparr>] \<noteq> []
   \<and> midpoint ieee (fst (best_bid_ask [] [\<lparr>price = Fin 2, size_l = Fin 100\<rparr>]))
        (snd (best_bid_ask [] [\<lparr>price = Fin 2, size_l = Fin 100\<rparr>])) = Some (Fin 2)"
  using midpoint_rule [of ieee "Fin 1" "Fin 3" 1 3 "[\<lparr>price = Fin 2, size_l = Fin 100\<rparr>]"]
  by (simp add: best_bid_ask_def)

subsection \<open>The simulator and the row of one book never raise\<close>

lemma walk_loop_returns: "\<exists>v'. walk_loop fl ls v = Inr v'"
proof (induction ls arbitrary: v)
  case Nil
  show ?case by simp
next
  case (Cons lvl rest)
  show ?case
  proof (cases "fle (price lvl) (Fin 0)")
    case True
    with Cons.IH show ?thesis by simp
  next
    case False
    then have "price lvl \<noteq> Fin 0" by (rule not_fle_zero_nonzero)
    with False Cons.IH show ?thesis
      by (simp add: Let_def py_truediv_def)
  qed
qed

lemma buy_avg_fill_price_returns: "\<exists>r. buy_avg_fill_price srt fl asks budget = Inr r"
proof -
  obtain v where v: "walk_asks srt fl asks budget = Inr v"
    unfolding walk_asks_def
    using walk_loop_returns [of fl "py_sorted srt price asks"] by blast
  show ?thesis
    using not_fle_eps_nonzero [of "total_shares v"]
    by (auto simp: buy_avg_fill_price_def v py_truediv_def)
qed

lemma three_fill_prices:
  "\<exists>avg10 avg50 avg200.
     buy_avg_fill_price srt fl asks (Fin 10) = Inr avg10
     \<and> buy_avg_fill_price srt fl asks (Fin 50) = Inr avg50
     \<and> buy_avg_fill_price srt fl asks (Fin 200) = Inr avg200"
  using buy_avg_fill_price_returns [of srt fl asks "Fin 10"]
    buy_avg_fill_price_returns [of srt fl asks "Fin 50"]
    buy_avg_fill_price_returns [of srt fl asks "Fin 200"]
  by auto

lemma book_metrics_row:
  assumes "buy_avg_fill_price srt fl asks (Fin 10) = Inr avg10"
    and "buy_avg_fill_price srt fl asks (Fin 50) = Inr avg50"
    and "buy_avg_fill_price srt fl asks (Fin 200) = Inr avg200"
  shows "book_metrics srt fl ts tok bids asks =
     Inr \<lparr>snapshot_ts = ts, token_id = tok,
          best_bid = fst (best_bid_ask bids asks), best_ask = snd (best_bid_ask bids asks),
          mid = midpoint fl (fst (best_bid_ask bids asks)) (snd (best_bid_ask bids asks)),
          spread = spread_of fl (fst (best_bid_ask bids asks)) (snd (best_bid_ask bids asks)),
          depth_1pt = calc_depth fl bids asks
             (midpoint fl (fst (best_bid_ask bids asks)) (snd (best_bid_ask bids asks)))
             DEPTH_BAND,
          slippage_buy_10 = slippage_of fl avg10
             (baseline_of
                (midpoint fl (fst (best_bid_ask bids asks)) (snd (best_bid_ask bids asks)))
                (snd (best_bid_ask bids asks))),
          slippage_buy_50 = slippage_of fl avg50
             (baseline_of
                (midpoint fl (fst (best_bid_ask bids asks)) (snd (best_bid_ask bids asks)))
                (snd (best_bid_ask bids asks))),
          slippage_buy_200 = slippage_of fl avg200
             (baseline_of
                (midpoint fl (fst (best_bid_ask bids asks)) (snd (best_bid_ask bids asks)))
                (snd (best_bid_ask bids asks))),
          score = score_of fl
             (calc_depth fl bids asks
                (midpoint fl (fst (best_bid_ask bids asks)) (snd (best_bid_ask bids asks)))
                DEPTH_BAND)
             (spread_of fl (fst (best_bid_ask bids asks)) (snd (best_bid_ask bids asks)))
             (slippage_of fl avg50
               (baseline_of
                  (midpoint fl (fst (best_bid_ask bids asks)) (snd (best_bid_ask bids asks)))
                  (snd (best_bid_ask bids asks))))\<rparr>"
  using assms by (simp add: book_metrics_def Let_def split_beta)

subsection \<open>Spread\<close>

lemma spread_of_Some:
  "(\<exists>y. spread_of fl bb ba = Some y) = ((\<exists>y. bb = Some y) \<and> (\<exists>y. ba = Some y))"
  by (cases bb; cases ba) simp_all

text \<open>
  C6. Whatever the rounding, the row of every book is produced, its best prices are those
  of the extractor, and its spread is present exactly when both best prices are; it is
  then the best ask minus the best bid, for finite prices the float of the difference
  \<open>y - x\<close> whatever its sign: the negative spread of a crossed book is the value of the
  row.
\<close>

theorem spread_rule:
  "\<exists>r. book_metrics srt fl ts tok bids asks = Inr r
     \<and> best_bid r = fst (best_bid_ask bids asks)
     \<and> best_ask r = snd (best_bid_ask bids asks)
     \<and> (spread r \<noteq> None \<longleftrightarrow> best_bid r \<noteq> None \<and> best_ask r \<noteq> None)
     \<and> (\<forall>bb ba. best_bid r = Some bb \<and> best_ask r = Some ba
            \<longrightarrow> spread r = Some (fsub fl ba bb))
     \<and> (\<forall>x y. best_bid r = Some (Fin x) \<and> best_ask r = Some (Fin y)
            \<longrightarrow> spread r = Some (fl (y - x)))"
proof -
  obtain avg10 avg50 avg200 where
    "buy_avg_fill_price srt fl asks (Fin 10) = Inr avg10"
    "buy_avg_fill_price srt fl asks (Fin 50) = Inr avg50"
    "buy_avg_fill_price srt fl asks (Fin 200) = Inr avg200"
    using three_fill_prices [of srt fl asks] by blast
  then show ?thesis
    by (simp add: book_metrics_row [where bids = bids and ts = ts and tok = tok] spread_of_Some)
qed

theorem spread_rule_witness:
  "\<exists>r. book_metrics input_order Fin (JStr ''t'') (JStr ''a'')
          [\<lparr>price = Fin (12/10), size_l = Fin 5\<rparr>] [\<lparr>price = Fin (11/10), size_l = Fin 7\<rparr>] = Inr r
     \<and> best_bid r = Some (Fin (12/10)) \<and> best_ask r = Some (Fin (11/10))
     \<and> spread r = Some (Fin (- (1/10)))"
  using spread_rule [of input_order Fin "JStr ''t''" "JStr ''a''"
          "[\<lparr>price = Fin (12/10), size_l = Fin 5\<rparr>]" "[\<lparr>price = Fin (11/10), size_l = Fin 7\<rparr>]"]
  by (auto simp: best_bid_ask_def)

subsection \<open>Score\<close>

lemma score_of_Some:
  "(\<exists>y. score_of fl d s sl = Some y) = ((\<exists>y. d = Some y) \<and> (\<exists>y. s = Some y) \<and> (\<exists>y. sl = Some y))"
  by (cases d; cases s; cases sl) simp_all

text \<open>
  C8. Whatever the rounding, in the row of every book the slippage at budget 50 is the
  fill price of the simulator for 50 minus the baseline, and the score is present
  exactly when depth, spread and that slippage are all present; it is then
  depth / 1000 - spread * 3 - slippage * 4, each operation rounded, and in exact
  arithmetic the real number \<open>d / 1000 - s * 3 - sl * 4\<close>.
\<close>

theorem score_rule:
  "(\<exists>r avg50. book_metrics srt fl ts tok bids asks = Inr r
     \<and> buy_avg_fill_price srt fl asks (Fin 50) = Inr avg50
     \<and> slippage_buy_50 r = slippage_of fl avg50 (baseline_of (mid r) (best_ask r))
     \<and> score r = score_of fl (depth_1pt r) (spread r) (slippage_buy_50 r)
     \<and> (score r \<noteq> None \<longleftrightarrow>
          depth_1pt r \<noteq> None \<and> spread r \<noteq> None \<and> slippage_buy_50 r \<noteq> None)
     \<and> (\<forall>d s sl. depth_1pt r = Some d \<and> spread r = Some s \<and> slippage_buy_50 r = Some sl
            \<longrightarrow> score r =
                Some (fsub fl (fsub fl (fdivide fl d (Fin 1000)) (fmul fl s (Fin 3)))
                        (fmul fl sl (Fin 4)))))
   \<and> score_of Fin (Some (Fin d)) (Some (Fin s)) (Some (Fin sl))
       = Some (Fin (d / 1000 - s * 3 - sl * 4))"
proof -
  obtain avg10 avg50 avg200 where
    "buy_avg_fill_price srt fl asks (Fin 10) = Inr avg10"
    "buy_avg_fill_price srt fl asks (Fin 50) = Inr avg50"
    "buy_avg_fill_price srt fl asks (Fin 200) = Inr avg200"
    using three_fill_prices [of srt fl asks] by blast
  then show ?thesis
    by (simp add: book_metrics_row [where bids = bids and ts = ts and tok = tok] score_of_Some)
qed

theorem score_rule_witness:
  "\<exists>r. book_metrics input_order Fin (JStr ''t'') (JStr ''a'')
          [\<lparr>price = Fin 1, size_l = Fin 50\<rparr>] [\<lparr>price = Fin 2, size_l = Fin 100\<rparr>] = Inr r
     \<and> depth_1pt r = Some (Fin 0) \<and> spread r = Some (Fin 1)
     \<and> slippage_buy_50 r = Some (Fin (1/2))
     \<and> score r = Some (Fin (- 5))"
  using score_rule [of input_order Fin "JStr ''t''" "JStr ''a''"
          "[\<lparr>price = Fin 1, size_l = Fin 50\<rparr>]" "[\<lparr>price = Fin 2, size_l = Fin 100\<rparr>]"]
  by (auto simp: book_metrics_def best_bid_ask_def DEPTH_BAND_def py_sum_def
        buy_avg_fill_price_def walk_asks_def py_sorted_def stable_sorted_def py_truediv_def
        eps_shares_def eps_budget_def Let_def)

subsection \<open>Depth in the band\<close>

lemma foldl_fadd_exact: "foldl (fadd Fin) a xs = fadd Fin a (foldl (fadd Fin) (Fin 0) xs)"
proof (induction xs arbitrary: a)
  case Nil
  show ?case by (cases a) simp_all
next
  case (Cons x xs)
  have "foldl (fadd Fin) a (x # xs) = fadd Fin (fadd Fin a x) (foldl (fadd Fin) (Fin 0) xs)"
    using Cons.IH [of "fadd Fin a x"] by simp
  also have "\<dots> = fadd Fin a (fadd Fin x (foldl (fadd Fin) (Fin 0) xs))"
    by (rule fadd_exact_assoc)
  also have "fadd Fin x (foldl (fadd Fin) (Fin 0) xs) = foldl (fadd Fin) (Fin 0) (x # xs)"
    using Cons.IH [of x] by simp
  finally show ?case .
qed

lemma py_sum_exact:
  "\<forall>l\<in>set ls. is_finite (size_l l) \<Longrightarrow>
     py_sum Fin (map size_l ls) = Fin (\<Sum>l\<leftarrow>ls. fin_val (size_l l))"
proof (induction ls)
  case Nil
  show ?case by (simp add: py_sum_def)
next
  case (Cons l ls)
  then obtain r where r: "size_l l = Fin r" by (auto dest: is_finite_Fin)
  have "py_sum Fin (map size_l (l # ls)) = fadd Fin (Fin r) (py_sum Fin (map size_l ls))"
    using foldl_fadd_exact [of "Fin r" "map size_l ls"] by (simp add: py_sum_def r)
  with Cons r show ?case by simp
qed

lemma filter_fge_finite:
  "\<forall>l\<in>set ls. is_finite (price l) \<Longrightarrow>
     filter (\<lambda>l. fge (price l) (Fin lo)) ls = filter (\<lambda>l. lo \<le> fin_val (price l)) ls"
proof (rule filter_cong [OF refl])
  fix l assume "\<forall>l\<in>set ls. is_finite (price l)" "l \<in> set ls"
  then obtain r where "price l = Fin r" by (auto dest: is_finite_Fin)
  then show "fge (price l) (Fin lo) = (lo \<le> fin_val (price l))" by simp
qed

lemma filter_fle_finite:
  "\<forall>l\<in>set ls. is_finite (price l) \<Longrightarrow>
     filter (\<lambda>l. fle (price l) (Fin hi)) ls = filter (\<lambda>l. fin_val (price l) \<le> hi) ls"
proof (rule filter_cong [OF refl])
  fix l assume "\<forall>l\<in>set ls. is_finite (price l)" "l \<in> set ls"
  then obtain r where "price l = Fin r" by (auto dest: is_finite_Fin)
  then show "fle (price l) (Fin hi) = (fin_val (price l) \<le> hi)" by simp
qed

text \<open>
  C7. Whatever the rounding, the depth is absent exactly when the midpoint is absent. For
  a midpoint \<open>x\<close> and a half-width \<open>b\<close> it is Python's sum of the sizes of the bid
  levels with price \<open>\<ge> x - b\<close> plus its sum of the sizes of the ask levels with price
  \<open>\<le> x + b\<close>, each level of the lists counted, as one number. In exact arithmetic, for
  finite levels, midpoint and half-width, it is that sum of real numbers.
\<close>

theorem depth_rule:
  "(calc_depth fl bids asks m b = None \<longleftrightarrow> m = None)
   \<and> (\<forall>x. m = Some x \<longrightarrow>
        calc_depth fl bids asks m b =
          Some (fadd fl
                 (py_sum fl (map size_l (filter (\<lambda>l. fge (price l) (fsub fl x b)) bids)))
                 (py_sum fl (map size_l (filter (\<lambda>l. fle (price l) (fadd fl x b)) asks)))))
   \<and> ((\<forall>l\<in>set bids \<union> set asks. finite_level l) \<longrightarrow>
        calc_depth Fin bids asks (Some (Fin x)) (Fin w) =
          Some (Fin ((\<Sum>l\<leftarrow>filter (\<lambda>l. x - w \<le> fin_val (price l)) bids. fin_val (size_l l))
                   + (\<Sum>l\<leftarrow>filter (\<lambda>l. fin_val (price l) \<le> x + w) asks. fin_val (size_l l)))))"
proof (intro conjI impI allI)
  show "calc_depth fl bids asks m b = None \<longleftrightarrow> m = None"
    by (cases m) (simp_all add: Let_def)
next
  fix x assume "m = Some x"
  then show "calc_depth fl bids asks m b =
          Some (fadd fl
                 (py_sum fl (map size_l (filter (\<lambda>l. fge (price l) (fsub fl x b)) bids)))
                 (py_sum fl (map size_l (filter (\<lambda>l. fle (price l) (fadd fl x b)) asks))))"
    by (simp add: Let_def)
next
  assume fin: "\<forall>l\<in>set bids \<union> set asks. finite_level l"
  then have pb: "\<forall>l\<in>set bids. is_finite (price l)" and pa: "\<forall>l\<in>set asks. is_finite (price l)"
    by (auto simp: finite_level_def)
  have sb: "\<forall>l\<in>set (filter (\<lambda>l. x - w \<le> fin_val (price l)) bids). is_finite (size_l l)"
    and sa: "\<forall>l\<in>set (filter (\<lambda>l. fin_val (price l) \<le> x + w) asks). is_finite (size_l l)"
    using fin by (auto simp: finite_level_def)
  show "calc_depth Fin bids asks (Some (Fin x)) (Fin w) =
          Some (Fin ((\<Sum>l\<leftarrow>filter (\<lambda>l. x - w \<le> fin_val (price l)) bids. fin_val (size_l l))
                   + (\<Sum>l\<leftarrow>filter (\<lambda>l. fin_val (price l) \<le> x + w) asks. fin_val (size_l l))))"
    by (simp add: Let_def filter_fge_finite [OF pb] filter_fle_finite [OF pa]
          py_sum_exact [OF sb] py_sum_exact [OF sa])
qed

theorem depth_rule_witness:
  "finite_level \<lparr>price = Fin 1, size_l = Fin 5\<rparr>
   \<and> finite_level \<lparr>price = Fin (1/2), size_l = Fin 9\<rparr>
   \<and> finite_level \<lparr>price = Fin 1, size_l = Fin 7\<rparr>
   \<and> finite_level \<lparr>price = Fin 3, size_l = Fin 2\<rparr>
   \<and> calc_depth Fin [\<lparr>price = Fin 1, size_l = Fin 5\<rparr>, \<lparr>price = Fin 1, size_l = Fin 5\<rparr>,
                  \<lparr>price = Fin (1/2), size_l = Fin 9\<rparr>]
        [\<lparr>price = Fin 1, size_l = Fin 7\<rparr>, \<lparr>price = Fin 3, size_l = Fin 2\<rparr>]
        (Some (Fin 1)) (Fin (1/100)) = Some (Fin 17)"
  using depth_rule [of Fin "[\<lparr>price = Fin 1, size_l = Fin 5\<rparr>, \<lparr>price = Fin 1, size_l = Fin 5\<rparr>,
                  \<lparr>price = Fin (1/2), size_l = Fin 9\<rparr>]"
        "[\<lparr>price = Fin 1, size_l = Fin 7\<rparr>, \<lparr>price = Fin 3, size_l = Fin 2\<rparr>]"
        "Some (Fin 1)" "Fin (1/100)" 1 "1/100"]
  by (simp add: finite_level_def)

subsection \<open>The order of the walk\<close>

lemma set_insort_lt: "set (insort_lt k x xs) = insert x (set xs)"
  by (induction xs) auto

lemma set_stable_sorted: "set (stable_sorted k xs) = set xs"
  by (induction xs) (simp_all add: stable_sorted_def set_insort_lt)

lemma mset_insort_lt: "mset (insort_lt k x xs) = add_mset x (mset xs)"
  by (induction xs) auto

lemma mset_stable_sorted: "mset (stable_sorted k xs) = mset xs"
  by (induction xs) (simp_all add: stable_sorted_def mset_insort_lt)

lemma mset_by_rank:
  assumes "length ranks = length xs"
  shows "mset (by_rank ranks xs) = mset xs"
proof -
  have "mset (by_rank ranks xs) = image_mset snd (mset (sort_key fst (zip ranks xs)))"
    by (simp add: by_rank_def)
  also have "\<dots> = image_mset snd (mset (zip ranks xs))"
    by simp
  also have "\<dots> = mset (map snd (zip ranks xs))"
    by simp
  also have "map snd (zip ranks xs) = xs"
    using assms by simp
  finally show ?thesis .
qed

text \<open>Whatever the order of the interpreter, sorting rearranges the items.\<close>

lemma mset_py_sorted: "mset (py_sorted srt k xs) = mset xs"
  by (simp add: py_sorted_def mset_by_rank mset_stable_sorted)

lemma set_py_sorted: "set (py_sorted srt k xs) = set xs"
  using mset_py_sorted [of srt k xs] by (metis set_mset_mset)

lemma length_py_sorted: "length (py_sorted srt k xs) = length xs"
  using mset_py_sorted [of srt k xs] by (metis size_mset)

text \<open>Without a NaN key the order of the interpreter plays no part.\<close>

lemma py_sorted_total: "\<forall>y\<in>set xs. k y \<noteq> NaN \<Longrightarrow> py_sorted srt k xs = stable_sorted k xs"
  by (auto simp: py_sorted_def)

lemma sorted_insort_lt:
  assumes "\<forall>y\<in>set xs. k y \<noteq> NaN" and "k x \<noteq> NaN"
    and "sorted_wrt (\<lambda>a b. fle (k a) (k b)) xs"
  shows "sorted_wrt (\<lambda>a b. fle (k a) (k b)) (insort_lt k x xs)"
  using assms
proof (induction xs)
  case Nil
  show ?case by simp
next
  case (Cons y ys)
  show ?case
  proof (cases "flt (k y) (k x)")
    case True
    with Cons show ?thesis
      by (auto simp: set_insort_lt flt_imp_fle)
  next
    case False
    with Cons.prems have xy: "fle (k x) (k y)" by (simp add: fle_total)
    with Cons.prems False show ?thesis
      by (auto intro: fle_trans)
  qed
qed

lemma stable_sorted_ascending:
  "\<forall>y\<in>set xs. k y \<noteq> NaN \<Longrightarrow> sorted_wrt (\<lambda>a b. fle (k a) (k b)) (stable_sorted k xs)"
proof (induction xs)
  case Nil
  show ?case by (simp add: stable_sorted_def)
next
  case (Cons x xs)
  then have "sorted_wrt (\<lambda>a b. fle (k a) (k b)) (insort_lt k x (stable_sorted k xs))"
    by (intro sorted_insort_lt) (simp_all add: set_stable_sorted)
  then show ?case by (simp add: stable_sorted_def)
qed

lemma py_sorted_ascending:
  "\<forall>y\<in>set xs. k y \<noteq> NaN \<Longrightarrow> sorted_wrt (\<lambda>a b. fle (k a) (k b)) (py_sorted srt k xs)"
  by (simp add: py_sorted_total stable_sorted_ascending)

subsection \<open>The loop of the simulator is the greedy walk\<close>

lemma walk_loop_greedy:
  "walk_loop fl ls v =
     Inr \<lparr>total_cost =
            spent (greedy_walk fl (filter (\<lambda>l. \<not> fle (price l) (Fin 0)) ls)
                     \<lparr>spent = total_cost v, filled = total_shares v, budget_left = remaining v\<rparr>),
          total_shares =
            filled (greedy_walk fl (filter (\<lambda>l. \<not> fle (price l) (Fin 0)) ls)
                     \<lparr>spent = total_cost v, filled = total_shares v, budget_left = remaining v\<rparr>),
          remaining =
            budget_left (greedy_walk fl (filter (\<lambda>l. \<not> fle (price l) (Fin 0)) ls)
                     \<lparr>spent = total_cost v, filled = total_shares v, budget_left = remaining v\<rparr>)\<rparr>"
proof (induction ls arbitrary: v)
  case Nil
  show ?case by simp
next
  case (Cons lvl rest)
  show ?case
  proof (cases "fle (price lvl) (Fin 0)")
    case True
    with Cons.IH show ?thesis by simp
  next
    case False
    then have "price lvl \<noteq> Fin 0" by (rule not_fle_zero_nonzero)
    with False Cons.IH show ?thesis
      by (simp add: Let_def py_truediv_def consume_level_def partial_fill_def)
  qed
qed

lemma walk_asks_greedy:
  "walk_asks srt fl asks budget =
     Inr \<lparr>total_cost = spent (greedy_fill srt fl asks budget),
          total_shares = filled (greedy_fill srt fl asks budget),
          remaining = budget_left (greedy_fill srt fl asks budget)\<rparr>"
  by (simp add: walk_asks_def greedy_fill_def visited_levels_def walk_loop_greedy)

text \<open>
  C2, amended. For asks none of whose prices is NaN the walk visits the levels of
  positive price in ascending order of price, in the stable order, whatever the
  interpreter's sort does with a NaN; for every list of asks the visited list holds
  exactly the levels of positive price, each as often as the input does. A level whose
  cost fits the remaining budget is consumed entirely, and the walk stops there if at
  most \<open>1e-9\<close> of the budget remains; the first level that does not fit is filled in
  part with all the remaining budget and ends the walk. Whatever the rounding, for a
  budget above 0 the simulator returns spent / filled whenever the filled shares exceed
  \<open>1e-12\<close>. In Python's arithmetic the single level of price 2 and size 100 and the
  budget 50 give the price 2, with 25 shares filled.
\<close>

theorem greedy_walk_result:
  "(fgt budget (Fin 0) \<and> fgt (filled (greedy_fill srt fl asks budget)) eps_shares \<longrightarrow>
      buy_avg_fill_price srt fl asks budget =
        Inr (Some (fdivide fl (spent (greedy_fill srt fl asks budget))
                     (filled (greedy_fill srt fl asks budget)))))
   \<and> mset (visited_levels srt asks) = filter_mset (\<lambda>l. \<not> fle (price l) (Fin 0)) (mset asks)
   \<and> ((\<forall>l\<in>set asks. price l \<noteq> NaN) \<longrightarrow>
        sorted_wrt (\<lambda>a b. fle (price a) (price b)) (visited_levels srt asks)
        \<and> visited_levels srt asks
            = filter (\<lambda>l. \<not> fle (price l) (Fin 0)) (stable_sorted price asks))
   \<and> buy_avg_fill_price srt ieee [\<lparr>price = Fin 2, size_l = Fin 100\<rparr>] (Fin 50)
       = Inr (Some (Fin 2))
   \<and> filled (greedy_fill srt ieee [\<lparr>price = Fin 2, size_l = Fin 100\<rparr>] (Fin 50)) = Fin 25"
proof (intro conjI impI)
  assume a: "fgt budget (Fin 0) \<and> fgt (filled (greedy_fill srt fl asks budget)) eps_shares"
  then have b: "\<not> fle budget (Fin 0)"
    and f: "\<not> fle (filled (greedy_fill srt fl asks budget)) eps_shares"
    by (simp_all add: fgt_not_fle)
  have ne: "asks \<noteq> []"
  proof
    assume "asks = []"
    then have "filled (greedy_fill srt fl asks budget) = Fin 0"
      by (simp add: greedy_fill_def visited_levels_def py_sorted_def stable_sorted_def)
    with f show False by (simp add: eps_shares_def)
  qed
  from f have "filled (greedy_fill srt fl asks budget) \<noteq> Fin 0" by (rule not_fle_eps_nonzero)
  with b f ne show "buy_avg_fill_price srt fl asks budget =
        Inr (Some (fdivide fl (spent (greedy_fill srt fl asks budget))
                     (filled (greedy_fill srt fl asks budget))))"
    by (simp add: buy_avg_fill_price_def walk_asks_greedy py_truediv_def)
next
  show "mset (visited_levels srt asks) = filter_mset (\<lambda>l. \<not> fle (price l) (Fin 0)) (mset asks)"
    by (simp add: visited_levels_def mset_py_sorted)
next
  assume "\<forall>l\<in>set asks. price l \<noteq> NaN"
  then have "sorted_wrt (\<lambda>a b. fle (price a) (price b)) (py_sorted srt price asks)"
    by (rule py_sorted_ascending)
  then show "sorted_wrt (\<lambda>a b. fle (price a) (price b)) (visited_levels srt asks)"
    unfolding visited_levels_def by (rule sorted_wrt_filter)
next
  assume "\<forall>l\<in>set asks. price l \<noteq> NaN"
  then show "visited_levels srt asks
            = filter (\<lambda>l. \<not> fle (price l) (Fin 0)) (stable_sorted price asks)"
    by (simp add: visited_levels_def py_sorted_total)
next
  show "buy_avg_fill_price srt ieee [\<lparr>price = Fin 2, size_l = Fin 100\<rparr>] (Fin 50)
       = Inr (Some (Fin 2))"
    by (simp add: buy_avg_fill_price_def walk_asks_def py_sorted_def stable_sorted_def
          py_truediv_def eps_shares_def eps_budget_def
          ieee_binade [where e = 1] ieee_binade [where e = 4] ieee_binade [where e = 5]
          ieee_binade [where e = 7] pow2_def round_half_even_def Let_def)
next
  show "filled (greedy_fill srt ieee [\<lparr>price = Fin 2, size_l = Fin 100\<rparr>] (Fin 50)) = Fin 25"
    by (simp add: greedy_fill_def visited_levels_def py_sorted_def stable_sorted_def
          partial_fill_def ieee_binade [where e = 4] ieee_binade [where e = 7] pow2_def
          round_half_even_def Let_def)
qed

theorem greedy_walk_result_witness:
  "fgt (Fin 10) (Fin 0)
   \<and> fgt (filled (greedy_fill input_order Fin [\<lparr>price = Fin 3, size_l = Fin 5\<rparr>, \<lparr>price = Fin 1, size_l = Fin 4\<rparr>]
                   (Fin 10))) eps_shares
   \<and> price \<lparr>price = Fin 3, size_l = Fin 5\<rparr> \<noteq> NaN \<and> price \<lparr>price = Fin 1, size_l = Fin 4\<rparr> \<noteq> NaN
   \<and> visited_levels input_order [\<lparr>price = Fin 3, size_l = Fin 5\<rparr>, \<lparr>price = Fin 1, size_l = Fin 4\<rparr>]
       = [\<lparr>price = Fin 1, size_l = Fin 4\<rparr>, \<lparr>price = Fin 3, size_l = Fin 5\<rparr>]
   \<and> buy_avg_fill_price input_order Fin [\<lparr>price = Fin 3, size_l = Fin 5\<rparr>, \<lparr>price = Fin 1, size_l = Fin 4\<rparr>]
        (Fin 10) = Inr (Some (Fin (5 / 3)))"
  using greedy_walk_result [of "Fin 10" input_order Fin
          "[\<lparr>price = Fin 3, size_l = Fin 5\<rparr>, \<lparr>price = Fin 1, size_l = Fin 4\<rparr>]"]
  by (simp add: greedy_fill_def visited_levels_def py_sorted_def stable_sorted_def
        partial_fill_def consume_level_def eps_shares_def eps_budget_def)

text \<open>
  The walk of C2 as stated stops only at a partial fill. With budget 10 and the asks
  (9.9999999999, 1) and (20, 1), in Python's arithmetic, the first level leaves about
  \<open>1e-10\<close> of the budget; the simulator stops there and returns 9.9999999999, the
  stated walk goes on to fill a part of the second level and averages to
  9.99999999995. Nor is the walk in ascending order of price on every list: CPython
  leaves the asks (2, 1), (NaN, 1), (1, 1) in this order, which is the one of
  \<open>input_order\<close>; the level at 2 is bought first, the level of NaN price ends the walk
  with NaN shares, the level at 1 is never visited, and the result is NaN.
\<close>

theorem claimed_walk_counterexample:
  "fgt (Fin 10) (Fin 0)
   \<and> fgt (filled (claimed_fill input_order ieee
                   [\<lparr>price = ieee (99999999999 / 10 ^ 10), size_l = Fin 1\<rparr>,
                    \<lparr>price = Fin 20, size_l = Fin 1\<rparr>] (Fin 10))) eps_shares
   \<and> buy_avg_fill_price input_order ieee
         [\<lparr>price = ieee (99999999999 / 10 ^ 10), size_l = Fin 1\<rparr>,
          \<lparr>price = Fin 20, size_l = Fin 1\<rparr>] (Fin 10)
       = Inr (Some (Fin (5629499534156825 / 2 ^ 49)))
   \<and> fdivide ieee
        (spent (claimed_fill input_order ieee
                  [\<lparr>price = ieee (99999999999 / 10 ^ 10), size_l = Fin 1\<rparr>,
                   \<lparr>price = Fin 20, size_l = Fin 1\<rparr>] (Fin 10)))
        (filled (claimed_fill input_order ieee
                   [\<lparr>price = ieee (99999999999 / 10 ^ 10), size_l = Fin 1\<rparr>,
                    \<lparr>price = Fin 20, size_l = Fin 1\<rparr>] (Fin 10)))
       = Fin (5629499534184973 / 2 ^ 49)
   \<and> buy_avg_fill_price input_order ieee
         [\<lparr>price = ieee (99999999999 / 10 ^ 10), size_l = Fin 1\<rparr>,
          \<lparr>price = Fin 20, size_l = Fin 1\<rparr>] (Fin 10)
       \<noteq> Inr (Some (fdivide ieee
             (spent (claimed_fill input_order ieee
                       [\<lparr>price = ieee (99999999999 / 10 ^ 10), size_l = Fin 1\<rparr>,
                        \<lparr>price = Fin 20, size_l = Fin 1\<rparr>] (Fin 10)))
             (filled (claimed_fill input_order ieee
                        [\<lparr>price = ieee (99999999999 / 10 ^ 10), size_l = Fin 1\<rparr>,
                         \<lparr>price = Fin 20, size_l = Fin 1\<rparr>] (Fin 10)))))
   \<and> visited_levels input_order
         [\<lparr>price = Fin 2, size_l = Fin 1\<rparr>, \<lparr>price = NaN, size_l = Fin 1\<rparr>,
          \<lparr>price = Fin 1, size_l = Fin 1\<rparr>]
       = [\<lparr>price = Fin 2, size_l = Fin 1\<rparr>, \<lparr>price = NaN, size_l = Fin 1\<rparr>,
          \<lparr>price = Fin 1, size_l = Fin 1\<rparr>]
   \<and> \<not> sorted_wrt (\<lambda>a b. fle (price a) (price b))
         (visited_levels input_order
            [\<lparr>price = Fin 2, size_l = Fin 1\<rparr>, \<lparr>price = NaN, size_l = Fin 1\<rparr>,
             \<lparr>price = Fin 1, size_l = Fin 1\<rparr>])
   \<and> buy_avg_fill_price input_order ieee
         [\<lparr>price = Fin 2, size_l = Fin 1\<rparr>, \<lparr>price = NaN, size_l = Fin 1\<rparr>,
          \<lparr>price = Fin 1, size_l = Fin 1\<rparr>] (Fin 10)
       = Inr (Some NaN)"
proof -
  let ?book = "[\<lparr>price = ieee (99999999999 / 10 ^ 10), size_l = Fin 1\<rparr>,
          \<lparr>price = Fin 20, size_l = Fin 1\<rparr>]"
  let ?nans = "[\<lparr>price = Fin 2, size_l = Fin 1\<rparr>, \<lparr>price = NaN, size_l = Fin 1\<rparr>,
          \<lparr>price = Fin 1, size_l = Fin 1\<rparr>]"
  have stop: "fgt (Fin 10) (Fin 0)
   \<and> fgt (filled (claimed_fill input_order ieee ?book (Fin 10))) eps_shares
   \<and> buy_avg_fill_price input_order ieee ?book (Fin 10)
       = Inr (Some (Fin (5629499534156825 / 2 ^ 49)))
   \<and> fdivide ieee (spent (claimed_fill input_order ieee ?book (Fin 10)))
        (filled (claimed_fill input_order ieee ?book (Fin 10)))
       = Fin (5629499534184973 / 2 ^ 49)
   \<and> buy_avg_fill_price input_order ieee ?book (Fin 10)
       \<noteq> Inr (Some (fdivide ieee (spent (claimed_fill input_order ieee ?book (Fin 10)))
             (filled (claimed_fill input_order ieee ?book (Fin 10)))))"
    by (simp add: buy_avg_fill_price_def walk_asks_def claimed_fill_def visited_levels_def
          py_sorted_def stable_sorted_def py_truediv_def partial_fill_def consume_level_def
          eps_shares_def eps_budget_def
          ieee_binade [where e = "- 38"] ieee_binade [where e = "- 34"] ieee_binade [where e = 0]
          ieee_binade [where e = 3] ieee_binade [where e = 4]
          pow2_def round_half_even_def Let_def)
  have order: "visited_levels input_order ?nans = ?nans"
    by (simp add: visited_levels_def py_sorted_def by_rank_def input_order_def upt_rec fle_def)
  have unsorted: "\<not> sorted_wrt (\<lambda>a b. fle (price a) (price b))
      (visited_levels input_order ?nans)"
    unfolding order by (simp add: fle_def)
  have nan: "buy_avg_fill_price input_order ieee ?nans (Fin 10) = Inr (Some NaN)"
    by (simp add: buy_avg_fill_price_def walk_asks_def py_sorted_def by_rank_def input_order_def
          upt_rec py_truediv_def eps_shares_def eps_budget_def fle_def fge_def
          ieee_binade [where e = 0] ieee_binade [where e = 1] ieee_binade [where e = 3]
          pow2_def round_half_even_def Let_def)
  from stop order unsorted nan show ?thesis by blast
qed

subsection \<open>When the simulator returns nothing\<close>

lemma walk_loop_skip: "\<forall>l\<in>set ls. fle (price l) (Fin 0) \<Longrightarrow> walk_loop fl ls v = Inr v"
  by (induction ls) simp_all

text \<open>
  C4. Whatever the rounding, the simulator raises nothing, and it returns absent exactly
  when the budget is \<open>\<le> 0\<close>, or there are no asks, or the shares its walk filled are
  \<open>\<le> 1e-12\<close>. So a budget \<open>\<le> 0\<close> gives absent whatever the book, and so does a book
  whose prices are all \<open>\<le> 0\<close>. A number of shares that is not NaN is \<open>\<le> 1e-12\<close> exactly
  when it does not exceed \<open>1e-12\<close>.
\<close>

theorem absent_rule:
  "(buy_avg_fill_price srt fl asks budget = Inr None \<longleftrightarrow>
      fle budget (Fin 0) \<or> asks = []
      \<or> (\<exists>v. walk_asks srt fl asks budget = Inr v \<and> fle (total_shares v) eps_shares))
   \<and> (\<exists>r. buy_avg_fill_price srt fl asks budget = Inr r)
   \<and> (fle budget (Fin 0) \<longrightarrow> buy_avg_fill_price srt fl asks budget = Inr None)
   \<and> ((\<forall>l\<in>set asks. fle (price l) (Fin 0)) \<longrightarrow> buy_avg_fill_price srt fl asks budget = Inr None)
   \<and> (\<forall>x. x \<noteq> NaN \<longrightarrow> (fle x eps_shares \<longleftrightarrow> \<not> fgt x eps_shares))"
proof (intro conjI impI allI)
  obtain v where v: "walk_asks srt fl asks budget = Inr v"
    unfolding walk_asks_def
    using walk_loop_returns [of fl "py_sorted srt price asks"] by blast
  show "buy_avg_fill_price srt fl asks budget = Inr None \<longleftrightarrow>
      fle budget (Fin 0) \<or> asks = []
      \<or> (\<exists>v. walk_asks srt fl asks budget = Inr v \<and> fle (total_shares v) eps_shares)"
    using not_fle_eps_nonzero [of "total_shares v"]
    by (auto simp: buy_avg_fill_price_def v py_truediv_def)
next
  show "\<exists>r. buy_avg_fill_price srt fl asks budget = Inr r"
    by (rule buy_avg_fill_price_returns)
next
  assume "fle budget (Fin 0)"
  then show "buy_avg_fill_price srt fl asks budget = Inr None"
    by (simp add: buy_avg_fill_price_def)
next
  assume "\<forall>l\<in>set asks. fle (price l) (Fin 0)"
  then have "\<forall>l\<in>set (py_sorted srt price asks). fle (price l) (Fin 0)"
    by (simp add: set_py_sorted)
  then have "walk_asks srt fl asks budget =
      Inr \<lparr>total_cost = Fin 0, total_shares = Fin 0, remaining = budget\<rparr>"
    unfolding walk_asks_def by (rule walk_loop_skip)
  then show "buy_avg_fill_price srt fl asks budget = Inr None"
    by (simp add: buy_avg_fill_price_def eps_shares_def)
next
  fix x :: pyfloat assume "x \<noteq> NaN"
  then show "fle x eps_shares \<longleftrightarrow> \<not> fgt x eps_shares"
    by (cases x) (auto simp: eps_shares_def fle_def fgt_def)
qed

theorem absent_rule_witness:
  "fle (Fin (- 3)) (Fin 0)
   \<and> buy_avg_fill_price input_order ieee [\<lparr>price = Fin 2, size_l = Fin 100\<rparr>] (Fin (- 3)) = Inr None
   \<and> fle (price \<lparr>price = Fin (- 1), size_l = Fin 100\<rparr>) (Fin 0)
   \<and> buy_avg_fill_price input_order ieee [\<lparr>price = Fin (- 1), size_l = Fin 100\<rparr>] (Fin 50) = Inr None"
  using absent_rule [of input_order ieee "[\<lparr>price = Fin 2, size_l = Fin 100\<rparr>]" "Fin (- 3)"]
    absent_rule [of input_order ieee "[\<lparr>price = Fin (- 1), size_l = Fin 100\<rparr>]" "Fin 50"]
  by simp

subsection \<open>The budget bounds the cost in exact arithmetic\<close>

lemma walk_loop_budget_inv:
  "budget_inv b v \<Longrightarrow> walk_loop Fin ls v = Inr v' \<Longrightarrow> budget_inv b v'"
proof (induction ls arbitrary: v)
  case Nil
  then show ?case by simp
next
  case (Cons lvl rest)
  show ?case
  proof (cases "fle (price lvl) (Fin 0)")
    case True
    with Cons show ?thesis by simp
  next
    case False
    then have nz: "price lvl \<noteq> Fin 0" by (rule not_fle_zero_nonzero)
    define cost where "cost = fmul Fin (price lvl) (size_l lvl)"
    show ?thesis
    proof (cases "fge (remaining v) cost")
      case True
      define w where "w = \<lparr>total_cost = fadd Fin (total_cost v) cost,
                    total_shares = fadd Fin (total_shares v) (size_l lvl),
                    remaining = fsub Fin (remaining v) cost\<rparr>"
      have inv_w: "budget_inv b w"
        using Cons.prems(1) True
        by (cases cost) (auto simp: budget_inv_def w_def fge_def fle_def fsub_def)
      show ?thesis
      proof (cases "fle (remaining w) eps_budget")
        case True
        with Cons.prems(2) False \<open>fge (remaining v) cost\<close> have "v' = w"
          by (simp add: Let_def cost_def w_def)
        with inv_w show ?thesis by simp
      next
        case go: False
        with Cons.prems(2) False \<open>fge (remaining v) cost\<close> have "walk_loop Fin rest w = Inr v'"
          by (simp add: Let_def cost_def w_def)
        with Cons.IH inv_w show ?thesis by blast
      qed
    next
      case part: False
      with Cons.prems(2) False nz have
        "v' = \<lparr>total_cost = fadd Fin (total_cost v) (remaining v),
               total_shares = fadd Fin (total_shares v) (fdivide Fin (remaining v) (price lvl)),
               remaining = Fin 0\<rparr>"
        by (simp add: Let_def cost_def py_truediv_def)
      with Cons.prems(1) show ?thesis
        by (auto simp: budget_inv_def)
    qed
  qed
qed

lemma walk_loop_finite:
  "\<forall>l\<in>set ls. finite_level l \<Longrightarrow> finite_vars v \<Longrightarrow> walk_loop Fin ls v = Inr v'
     \<Longrightarrow> finite_vars v'"
proof (induction ls arbitrary: v)
  case Nil
  then show ?case by simp
next
  case (Cons lvl rest)
  from Cons.prems(1) obtain p s where ps: "price lvl = Fin p" "size_l lvl = Fin s"
    by (auto simp: finite_level_def dest!: is_finite_Fin)
  from Cons.prems(2) obtain c t r where
    v: "total_cost v = Fin c" "total_shares v = Fin t" "remaining v = Fin r"
    by (auto simp: finite_vars_def dest!: is_finite_Fin)
  show ?case
  proof (cases "p \<le> 0")
    case True
    with Cons ps show ?thesis by simp
  next
    case False
    show ?thesis
    proof (cases "p * s \<le> r")
      case True
      define w where "w = \<lparr>total_cost = Fin (c + p * s), total_shares = Fin (t + s),
                             remaining = Fin (r - p * s)\<rparr>"
      have fw: "finite_vars w" by (simp add: finite_vars_def w_def)
      show ?thesis
      proof (cases "fle (remaining w) eps_budget")
        case True
        with Cons.prems(3) False \<open>p * s \<le> r\<close> ps v have "v' = w"
          by (simp add: Let_def w_def)
        with fw show ?thesis by simp
      next
        case go: False
        with Cons.prems(3) False \<open>p * s \<le> r\<close> ps v have "walk_loop Fin rest w = Inr v'"
          by (simp add: Let_def w_def)
        with Cons.IH Cons.prems(1) fw show ?thesis by simp
      qed
    next
      case part: False
      with Cons.prems(3) False ps v show ?thesis
        by (auto simp: Let_def py_truediv_def finite_vars_def)
    qed
  qed
qed

lemma exact_cost_bound:
  assumes "fgt budget (Fin 0)" and "buy_avg_fill_price srt Fin asks budget = Inr (Some p)"
  shows "\<exists>v. walk_asks srt Fin asks budget = Inr v
           \<and> \<not> fgt (total_cost v) budget
           \<and> ((\<forall>l\<in>set asks. finite_level l) \<and> is_finite budget \<longrightarrow>
                is_finite (total_cost v) \<and> is_finite (total_shares v) \<and> is_finite p
                \<and> fle (total_cost v) budget
                \<and> fmul Fin p (total_shares v) = total_cost v
                \<and> fle (fmul Fin p (total_shares v)) budget)"
proof -
  let ?init = "\<lparr>total_cost = Fin 0, total_shares = Fin 0, remaining = budget\<rparr>"
  obtain v where v: "walk_asks srt Fin asks budget = Inr v"
    unfolding walk_asks_def
    using walk_loop_returns [of Fin "py_sorted srt price asks"] by blast
  then have loop: "walk_loop Fin (py_sorted srt price asks) ?init = Inr v"
    by (simp add: walk_asks_def)
  from assms(1) have pos: "\<not> fle budget (Fin 0)" by (rule fgt_not_fle)
  from assms(2) pos have shares: "\<not> fle (total_shares v) eps_shares"
    and p: "py_truediv Fin (total_cost v) (total_shares v) = Inr p"
    by (auto simp: buy_avg_fill_price_def v split: if_splits sum.splits)
  have bound: "\<not> fgt (total_cost v) budget"
  proof (cases budget)
    case (Fin b)
    with assms(1) have "budget_inv b ?init" by (simp add: budget_inv_def)
    then have "budget_inv b v" using loop by (rule walk_loop_budget_inv)
    with Fin show ?thesis by (auto simp: budget_inv_def fgt_def)
  next
    case PInf
    then show ?thesis by (cases "total_cost v") (simp_all add: fgt_def)
  next
    case NInf
    with assms(1) show ?thesis by (simp add: fgt_def)
  next
    case NaN
    with assms(1) show ?thesis by (simp add: fgt_def)
  qed
  have fin: "is_finite (total_cost v) \<and> is_finite (total_shares v) \<and> is_finite p
                \<and> fle (total_cost v) budget
                \<and> fmul Fin p (total_shares v) = total_cost v
                \<and> fle (fmul Fin p (total_shares v)) budget"
    if lv: "\<forall>l\<in>set asks. finite_level l" and fb: "is_finite budget"
  proof -
    from fb obtain b where b: "budget = Fin b" by (auto dest: is_finite_Fin)
    have "finite_vars ?init" by (simp add: finite_vars_def b)
    with lv loop have "finite_vars v"
      by (intro walk_loop_finite [of "py_sorted srt price asks" ?init v]) (simp_all add: set_py_sorted)
    then obtain c s r where
      cs: "total_cost v = Fin c" "total_shares v = Fin s" "remaining v = Fin r"
      by (auto simp: finite_vars_def dest!: is_finite_Fin)
    from shares cs have s: "s \<noteq> 0" by (auto simp: eps_shares_def)
    with p cs have pv: "p = Fin (c / s)" by (auto simp: py_truediv_def)
    from bound b cs have "c \<le> b" by simp
    with cs pv s b show ?thesis by simp
  qed
  from v bound fin show ?thesis by blast
qed

subsection \<open>The rounding error of one operation\<close>

lemma round_half_even_upper: "of_int (round_half_even q) \<le> q + 1 / 2"
proof -
  have "of_int \<lfloor>q\<rfloor> \<le> q" by (rule of_int_floor_le)
  then have lo: "of_int \<lfloor>q\<rfloor> \<le> q + 1 / 2" by linarith
  show ?thesis
  proof (cases "q - of_int \<lfloor>q\<rfloor> < 1 / 2")
    case True
    then have eq: "round_half_even q = \<lfloor>q\<rfloor>" by (simp add: round_half_even_def Let_def)
    show ?thesis unfolding eq by (rule lo)
  next
    case False
    then have up: "of_int (\<lfloor>q\<rfloor> + 1) \<le> q + 1 / 2" by simp
    from False have "round_half_even q = \<lfloor>q\<rfloor> \<or> round_half_even q = \<lfloor>q\<rfloor> + 1"
      by (simp add: round_half_even_def Let_def)
    then show ?thesis
    proof
      assume eq: "round_half_even q = \<lfloor>q\<rfloor>"
      show ?thesis unfolding eq by (rule lo)
    next
      assume eq: "round_half_even q = \<lfloor>q\<rfloor> + 1"
      show ?thesis unfolding eq by (rule up)
    qed
  qed
qed

lemma round_half_even_nonneg:
  assumes "0 \<le> q"
  shows "0 \<le> round_half_even q"
proof -
  from assms have "0 \<le> \<lfloor>q\<rfloor>" by simp
  with round_half_even_bounds [of q] show ?thesis by linarith
qed

lemma ieee_nonneg:
  assumes "0 \<le> z"
  shows "ieee z = PInf \<or> (\<exists>y. ieee z = Fin y \<and> 0 \<le> y)"
proof (cases "z = 0")
  case True
  then show ?thesis by (simp add: ieee_zero)
next
  case False
  with assms have pos: "0 < z" by simp
  define k where "k = max \<lfloor>log 2 \<bar>z\<bar>\<rfloor> (- 1022) - 52"
  define y where "y = of_int (round_half_even (z / pow2 k)) * pow2 k"
  have "0 \<le> z / pow2 k" using pos pow2_pos [of k] by simp
  then have "0 \<le> round_half_even (z / pow2 k)" by (rule round_half_even_nonneg)
  then have y: "0 \<le> y" using pow2_pos [of k] by (simp add: y_def)
  have "ieee z = (if 2 ^ 1024 \<le> \<bar>y\<bar> then PInf else Fin y)"
    using pos by (simp add: ieee_def Let_def y_def k_def)
  with y show ?thesis by auto
qed

lemma ieee_subnormal:
  assumes pos: "0 < \<bar>x\<bar>" and hi: "\<bar>x\<bar> < pow2 (- 1022)"
  shows "ieee x = Fin (of_int (round_half_even (x / pow2 (- 1074))) * pow2 (- 1074))"
proof -
  from pos have nz: "x \<noteq> 0" by auto
  from hi have "\<bar>x\<bar> < 2 powr (- 1022)" by (simp add: pow2_powr)
  with pos have "log 2 \<bar>x\<bar> < - 1022" by (simp add: log_less_iff)
  then have "\<lfloor>log 2 \<bar>x\<bar>\<rfloor> < - 1022" by (simp add: floor_less_iff)
  then have e: "max \<lfloor>log 2 \<bar>x\<bar>\<rfloor> (- 1022) = - 1022" by simp
  let ?u = "pow2 (- 1074)"
  let ?n = "round_half_even (x / ?u)"
  have u: "0 < ?u" by (rule pow2_pos)
  have "pow2 (- 1022) = pow2 52 * ?u" using pow2_add [of 52 "- 1074"] by simp
  moreover have "pow2 52 = 2 ^ 52" by (simp add: pow2_def)
  ultimately have top: "pow2 (- 1022) = 2 ^ 52 * ?u" by simp
  with hi u have "\<bar>x / ?u\<bar> < 2 ^ 52" by (simp add: field_simps abs_mult)
  then have "\<bar>x / ?u\<bar> < of_int (2 ^ 52)" by simp
  then have n: "\<bar>?n\<bar> \<le> 2 ^ 52" by (rule round_half_even_abs)
  have "\<bar>of_int ?n * ?u\<bar> = \<bar>of_int ?n :: real\<bar> * ?u" using u by (simp add: abs_mult)
  also have "\<dots> \<le> 2 ^ 52 * ?u"
  proof -
    from n have "\<bar>of_int ?n :: real\<bar> \<le> of_int (2 ^ 52)"
      by (metis of_int_abs of_int_le_iff)
    with u show ?thesis by simp
  qed
  also have "\<dots> = pow2 (- 1022)" using top by simp
  also have "\<dots> < 2 ^ 1024" by (simp add: pow2_def)
  finally have "\<not> 2 ^ 1024 \<le> \<bar>of_int ?n * ?u\<bar>" by simp
  moreover have "(- 1022 :: int) - 52 = - 1074" by simp
  ultimately show ?thesis using nz e by (simp add: ieee_def Let_def)
qed

lemma ieee_upper:
  assumes "0 \<le> z" and "z < pow2 1023"
  shows "\<exists>y. ieee z = Fin y \<and> 0 \<le> y \<and> y \<le> z + z / 2 ^ 53 + 1 / 2 ^ 1075"
proof -
  consider "z = 0" | "0 < z" "z < pow2 (- 1022)" | "pow2 (- 1022) \<le> z"
    using assms(1) by fastforce
  then show ?thesis
  proof cases
    case 1
    then show ?thesis by (simp add: ieee_zero)
  next
    case 2
    let ?u = "pow2 (- 1074)"
    let ?y = "of_int (round_half_even (z / ?u)) * ?u"
    have u: "0 < ?u" by (rule pow2_pos)
    from 2 have eq: "ieee z = Fin ?y" by (intro ieee_subnormal) simp_all
    have "0 \<le> z / ?u" using 2 u by simp
    then have "0 \<le> round_half_even (z / ?u)" by (rule round_half_even_nonneg)
    then have y0: "0 \<le> ?y" using u by simp
    have "?y \<le> (z / ?u + 1 / 2) * ?u"
      using round_half_even_upper [of "z / ?u"] u by (simp only: mult_right_mono less_imp_le)
    also have "\<dots> = z + ?u / 2" using u by (simp add: field_simps)
    also have "?u / 2 = 1 / 2 ^ 1075" by (simp add: pow2_def)
    finally have "?y \<le> z + 1 / 2 ^ 1075" .
    moreover have "0 \<le> z / 2 ^ 53" using assms(1) by simp
    ultimately have "?y \<le> z + z / 2 ^ 53 + 1 / 2 ^ 1075" by linarith
    with eq y0 show ?thesis by blast
  next
    case 3
    from 3 pow2_pos [of "- 1022"] have pos: "0 < z" by linarith
    define e where "e = \<lfloor>log 2 z\<rfloor>"
    have "2 powr (of_int e) \<le> z \<and> z < 2 powr (of_int (e + 1))"
      using floor_log_eq_powr_iff [of z 2 e] pos by (simp add: e_def)
    then have lo: "pow2 e \<le> z" and hi: "z < pow2 (e + 1)" by (simp_all add: pow2_powr)
    have emin: "- 1022 \<le> e"
    proof (rule ccontr)
      assume "\<not> - 1022 \<le> e"
      then have "e + 1 \<le> - 1022" by simp
      then have "pow2 (e + 1) \<le> pow2 (- 1022)" by (rule pow2_mono)
      with hi 3 show False by linarith
    qed
    have emax: "e \<le> 1022"
    proof (rule ccontr)
      assume "\<not> e \<le> 1022"
      then have "1023 \<le> e" by simp
      then have "pow2 1023 \<le> pow2 e" by (rule pow2_mono)
      with lo assms(2) show False by linarith
    qed
    let ?u = "pow2 (e - 52)"
    let ?y = "of_int (round_half_even (z / ?u)) * ?u"
    have u: "0 < ?u" by (rule pow2_pos)
    from lo hi pos have eq: "ieee z = Fin ?y"
      by (intro ieee_binade emin emax) simp_all
    have "0 \<le> z / ?u" using pos u by simp
    then have "0 \<le> round_half_even (z / ?u)" by (rule round_half_even_nonneg)
    then have y0: "0 \<le> ?y" using u by simp
    have "?y \<le> (z / ?u + 1 / 2) * ?u"
      using round_half_even_upper [of "z / ?u"] u by (simp only: mult_right_mono less_imp_le)
    also have "\<dots> = z + ?u / 2" using u by (simp add: field_simps)
    finally have y1: "?y \<le> z + ?u / 2" .
    have "pow2 e = pow2 52 * ?u" using pow2_add [of 52 "e - 52"] by simp
    moreover have "pow2 52 = 2 ^ 52" by (simp add: pow2_def)
    ultimately have "2 ^ 52 * ?u \<le> z" using lo by simp
    then have "?u / 2 \<le> z / 2 ^ 53" by (simp add: field_simps)
    with y1 have "?y \<le> z + z / 2 ^ 53 + 1 / 2 ^ 1075" by simp
    with eq y0 show ?thesis by blast
  qed
qed

subsection \<open>The budget bounds the cost up to rounding in Python's arithmetic\<close>

lemma rounded_pair_bound_gen:
  fixes a b K ya yb u h :: real
  assumes "0 \<le> u" and "a + b \<le> K" and "2 * h \<le> K * u"
    and "ya \<le> a + a * u + h" and "yb \<le> b + b * u + h"
  shows "ya + yb \<le> K * (1 + 2 * u)"
proof -
  have "ya + yb \<le> (a + b) * (1 + u) + 2 * h"
    using assms(4,5) by (simp add: algebra_simps)
  also have "(a + b) * (1 + u) \<le> K * (1 + u)"
    using assms(1,2) by (intro mult_right_mono) simp_all
  also have "K * (1 + u) + 2 * h \<le> K * (1 + u) + K * u"
    using assms(3) by simp
  also have "\<dots> = K * (1 + 2 * u)"
    by (simp add: algebra_simps)
  finally show ?thesis by simp
qed

lemma rounded_pair_bound:
  fixes a b K ya yb :: real
  assumes "0 \<le> a" and "0 \<le> b" and "a + b \<le> K" and "1 / 2 ^ 1021 \<le> K"
    and "ya \<le> a + a / 2 ^ 53 + 1 / 2 ^ 1075" and "yb \<le> b + b / 2 ^ 53 + 1 / 2 ^ 1075"
  shows "ya + yb \<le> K * (1 + 1 / 2 ^ 52)"
proof -
  have "(1 / 2 ^ 1021) * (1 / 2 ^ 53) \<le> K * (1 / 2 ^ 53 :: real)"
    using assms(4) by (intro mult_right_mono) simp_all
  moreover have "2 * (1 / 2 ^ 1075) = (1 / 2 ^ 1021) * (1 / 2 ^ 53 :: real)"
    by simp
  ultimately have h: "2 * (1 / 2 ^ 1075) \<le> K * (1 / 2 ^ 53)"
    by (simp only:)
  have "ya \<le> a + a * (1 / 2 ^ 53) + 1 / 2 ^ 1075" "yb \<le> b + b * (1 / 2 ^ 53) + 1 / 2 ^ 1075"
    using assms(5,6) by simp_all
  from rounded_pair_bound_gen [OF _ assms(3) h this]
  have "ya + yb \<le> K * (1 + 2 * (1 / 2 ^ 53))" by simp
  moreover have "2 * (1 / 2 ^ 53) = (1 / 2 ^ 52 :: real)" by simp
  ultimately show ?thesis by (simp only:)
qed

lemma rounded_bound:
  fixes a K y :: real
  assumes "0 \<le> a" and "a \<le> K" and "1 / 2 ^ 1021 \<le> K"
    and "y \<le> a + a / 2 ^ 53 + 1 / 2 ^ 1075"
  shows "y \<le> K * (1 + 1 / 2 ^ 52)"
  using rounded_pair_bound [of a 0 K y 0] assms by simp

lemma walk_loop_rounded_bound:
  assumes "\<forall>l\<in>set ls. finite_level l \<and> fle (Fin 0) (size_l l)"
    and "total_cost v = Fin c" and "remaining v = Fin r"
    and "0 \<le> c" and "0 \<le> r" and "c + r \<le> K"
    and "1 / 2 ^ 1021 \<le> K" and "K * (1 + 1 / 2 ^ 52) ^ length ls < 2 ^ 1023"
    and "walk_loop ieee ls v = Inr v'"
  shows "\<exists>c' r'. total_cost v' = Fin c' \<and> remaining v' = Fin r' \<and> 0 \<le> c' \<and> 0 \<le> r'
           \<and> c' + r' \<le> K * (1 + 1 / 2 ^ 52) ^ length ls"
  using assms
proof (induction ls arbitrary: v c r K)
  case Nil
  then show ?case by simp
next
  case (Cons lvl rest)
  let ?g = "1 + 1 / 2 ^ 52 :: real"
  let ?n = "length rest"
  have g1: "1 \<le> ?g" by simp
  then have gn: "1 \<le> ?g ^ ?n" by (rule one_le_power)
  from Cons.prems(7) have Kpos: "0 < K"
    by (rule less_le_trans [rotated]) simp
  have top: "K * ?g ^ length (lvl # rest) = (K * ?g) * ?g ^ ?n" by simp
  have KgK: "K \<le> K * ?g" using Kpos by simp
  have Kgn: "K * ?g \<le> (K * ?g) * ?g ^ ?n" using Kpos gn by simp
  from Cons.prems(8) top have big: "(K * ?g) * ?g ^ ?n < 2 ^ 1023" by simp
  have Kn: "K * ?g ^ ?n \<le> (K * ?g) * ?g ^ ?n" using Kpos gn by simp
  have p1023: "pow2 1023 = 2 ^ 1023" by (simp add: pow2_def)
  from KgK Kgn big have Ksmall: "K < pow2 1023" by (simp add: p1023)
  from Cons.prems(1) obtain p s where ps: "price lvl = Fin p" "size_l lvl = Fin s" and s0: "0 \<le> s"
    by (auto simp: finite_level_def dest!: is_finite_Fin)
  from Cons.prems(1) have rest: "\<forall>l\<in>set rest. finite_level l \<and> fle (Fin 0) (size_l l)" by simp
  show ?case
  proof (cases "p \<le> 0")
    case True
    with Cons.prems(9) ps have "walk_loop ieee rest v = Inr v'" by simp
    moreover from Kn big have "K * ?g ^ ?n < 2 ^ 1023" by linarith
    ultimately obtain c' r' where
      "total_cost v' = Fin c'" "remaining v' = Fin r'" "0 \<le> c'" "0 \<le> r'"
      "c' + r' \<le> K * ?g ^ ?n"
      using Cons.IH [OF rest Cons.prems(2,3,4,5,6,7)] by blast
    with Kn top show ?thesis by (intro exI [of _ c'] exI [of _ r']) simp
  next
    case False
    then have "0 \<le> p * s" using s0 by simp
    then consider "ieee (p * s) = PInf" | x where "ieee (p * s) = Fin x" "0 \<le> x"
      using ieee_nonneg [of "p * s"] by blast
    then have "(\<exists>x. ieee (p * s) = Fin x \<and> 0 \<le> x \<and> x \<le> r) \<or> \<not> fge (Fin r) (ieee (p * s))"
    proof cases
      case 1
      then show ?thesis by (simp add: fge_def fle_def)
    next
      case 2
      then show ?thesis by (cases "x \<le> r") simp_all
    qed
    then show ?thesis
    proof
      assume "\<exists>x. ieee (p * s) = Fin x \<and> 0 \<le> x \<and> x \<le> r"
      then obtain x where x: "ieee (p * s) = Fin x" "0 \<le> x" "x \<le> r" by blast
      from x Cons.prems(4,5,6) Ksmall have "0 \<le> c + x" "c + x < pow2 1023" by simp_all
      then obtain yc where yc: "ieee (c + x) = Fin yc" "0 \<le> yc"
          "yc \<le> (c + x) + (c + x) / 2 ^ 53 + 1 / 2 ^ 1075"
        using ieee_upper [of "c + x"] by blast
      from x Cons.prems(4,5,6) Ksmall have "0 \<le> r - x" "r - x < pow2 1023" by simp_all
      then obtain yr where yr: "ieee (r - x) = Fin yr" "0 \<le> yr"
          "yr \<le> (r - x) + (r - x) / 2 ^ 53 + 1 / 2 ^ 1075"
        using ieee_upper [of "r - x"] by blast
      have sum: "yc + yr \<le> K * ?g"
      proof (rule rounded_pair_bound [of "c + x" "r - x"])
        show "0 \<le> c + x" using x Cons.prems(4) by simp
        show "0 \<le> r - x" using x by simp
        show "c + x + (r - x) \<le> K" using Cons.prems(6) by simp
        show "1 / 2 ^ 1021 \<le> K" by (rule Cons.prems(7))
        show "yc \<le> (c + x) + (c + x) / 2 ^ 53 + 1 / 2 ^ 1075" by (rule yc(3))
        show "yr \<le> (r - x) + (r - x) / 2 ^ 53 + 1 / 2 ^ 1075" by (rule yr(3))
      qed
      define w where "w = \<lparr>total_cost = Fin yc,
                             total_shares = fadd ieee (total_shares v) (Fin s),
                             remaining = Fin yr\<rparr>"
      show ?thesis
      proof (cases "fle (remaining w) eps_budget")
        case True
        with Cons.prems(2,3,9) False ps x yc yr have "v' = w"
          by (simp add: Let_def w_def)
        with yc(2) yr(2) sum Kgn top show ?thesis
          by (intro exI [of _ yc] exI [of _ yr]) (simp add: w_def)
      next
        case go: False
        with Cons.prems(2,3,9) False ps x yc yr have loop: "walk_loop ieee rest w = Inr v'"
          by (simp add: Let_def w_def)
        have K': "1 / 2 ^ 1021 \<le> K * ?g" using Cons.prems(7) KgK by linarith
        have "total_cost w = Fin yc" "remaining w = Fin yr" by (simp_all add: w_def)
        from Cons.IH [OF rest this yc(2) yr(2) sum K' big loop] show ?thesis
          unfolding top .
      qed
    next
      assume part: "\<not> fge (Fin r) (ieee (p * s))"
      from Cons.prems(4,5,6) Ksmall have "0 \<le> c + r" "c + r < pow2 1023" by simp_all
      then obtain y where y: "ieee (c + r) = Fin y" "0 \<le> y"
          "y \<le> (c + r) + (c + r) / 2 ^ 53 + 1 / 2 ^ 1075"
        using ieee_upper [of "c + r"] by blast
      from Cons.prems(4,5) have "0 \<le> c + r" by simp
      from rounded_bound [OF this Cons.prems(6,7) y(3)] have yb: "y \<le> K * ?g" .
      from False have "p \<noteq> 0" by simp
      with Cons.prems(2,3,9) False ps part y have
        "total_cost v' = Fin y" "remaining v' = Fin 0"
        by (auto simp: Let_def py_truediv_def)
      with y(2) yb Kgn top show ?thesis
        by (intro exI [of _ y] exI [of _ 0]) simp
    qed
  qed
qed

lemma walk_asks_rounded_bound:
  assumes "\<forall>l\<in>set asks. finite_level l \<and> fle (Fin 0) (size_l l)"
    and "1 / 2 ^ 1021 \<le> B" and "B * (1 + 1 / 2 ^ 52) ^ length asks < 2 ^ 1023"
  shows "\<exists>v c. walk_asks srt ieee asks (Fin B) = Inr v \<and> total_cost v = Fin c \<and> 0 \<le> c
           \<and> c \<le> B * (1 + 1 / 2 ^ 52) ^ length asks"
proof -
  let ?init = "\<lparr>total_cost = Fin 0, total_shares = Fin 0, remaining = Fin B\<rparr>"
  let ?ls = "py_sorted srt price asks"
  obtain v where v: "walk_loop ieee ?ls ?init = Inr v"
    using walk_loop_returns [of ieee ?ls ?init] by blast
  from assms(2) have B0: "0 \<le> B"
    by (rule order_trans [rotated]) simp
  have lv: "\<forall>l\<in>set ?ls. finite_level l \<and> fle (Fin 0) (size_l l)"
    using assms(1) by (simp add: set_py_sorted)
  have big: "B * (1 + 1 / 2 ^ 52) ^ length ?ls < 2 ^ 1023"
    using assms(3) by (simp add: length_py_sorted)
  have "\<exists>c' r'. total_cost v = Fin c' \<and> remaining v = Fin r' \<and> 0 \<le> c' \<and> 0 \<le> r'
           \<and> c' + r' \<le> B * (1 + 1 / 2 ^ 52) ^ length ?ls"
    by (rule walk_loop_rounded_bound [OF lv _ _ _ B0 _ assms(2) big v, of 0]) simp_all
  then obtain c r where "total_cost v = Fin c" "0 \<le> c" "0 \<le> r"
      "c + r \<le> B * (1 + 1 / 2 ^ 52) ^ length asks"
    by (auto simp: length_py_sorted)
  with v show ?thesis
    by (intro exI [of _ v] exI [of _ c]) (simp add: walk_asks_def)
qed

text \<open>
  C10, amended. In exact arithmetic, when the simulator returns a fill price \<open>p\<close> for a
  budget above 0, the cost its walk has added up does not exceed the budget; on finite
  levels and a finite budget cost, shares and price are finite, the cost is at most the
  budget, and the price times the filled shares is that cost, so at most the budget as
  well. In Python's arithmetic, for \<open>n\<close> finite levels of non-negative size and a
  budget \<open>B\<close> of at least \<open>2^-1021\<close> with \<open>B (1 + 2^-52)^n\<close> below \<open>2^1023\<close>, the
  cost the walk has added up is at most \<open>B (1 + 2^-52)^n\<close>: it exceeds the budget by
  rounding only.
\<close>

theorem budget_bound:
  "(fgt budget (Fin 0) \<and> buy_avg_fill_price srt Fin asks budget = Inr (Some p) \<longrightarrow>
      (\<exists>v. walk_asks srt Fin asks budget = Inr v
           \<and> \<not> fgt (total_cost v) budget
           \<and> ((\<forall>l\<in>set asks. finite_level l) \<and> is_finite budget \<longrightarrow>
                is_finite (total_cost v) \<and> is_finite (total_shares v) \<and> is_finite p
                \<and> fle (total_cost v) budget
                \<and> fmul Fin p (total_shares v) = total_cost v
                \<and> fle (fmul Fin p (total_shares v)) budget)))
   \<and> ((\<forall>l\<in>set asks. finite_level l \<and> fle (Fin 0) (size_l l))
        \<and> 1 / 2 ^ 1021 \<le> B \<and> B * (1 + 1 / 2 ^ 52) ^ length asks < 2 ^ 1023 \<longrightarrow>
      (\<exists>v c. walk_asks srt ieee asks (Fin B) = Inr v \<and> total_cost v = Fin c \<and> 0 \<le> c
           \<and> c \<le> B * (1 + 1 / 2 ^ 52) ^ length asks))"
proof (intro conjI impI)
  assume "fgt budget (Fin 0) \<and> buy_avg_fill_price srt Fin asks budget = Inr (Some p)"
  then have "fgt budget (Fin 0)" and "buy_avg_fill_price srt Fin asks budget = Inr (Some p)"
    by simp_all
  then show "\<exists>v. walk_asks srt Fin asks budget = Inr v
           \<and> \<not> fgt (total_cost v) budget
           \<and> ((\<forall>l\<in>set asks. finite_level l) \<and> is_finite budget \<longrightarrow>
                is_finite (total_cost v) \<and> is_finite (total_shares v) \<and> is_finite p
                \<and> fle (total_cost v) budget
                \<and> fmul Fin p (total_shares v) = total_cost v
                \<and> fle (fmul Fin p (total_shares v)) budget)"
    by (rule exact_cost_bound)
next
  assume "(\<forall>l\<in>set asks. finite_level l \<and> fle (Fin 0) (size_l l))
        \<and> 1 / 2 ^ 1021 \<le> B \<and> B * (1 + 1 / 2 ^ 52) ^ length asks < 2 ^ 1023"
  then have "\<forall>l\<in>set asks. finite_level l \<and> fle (Fin 0) (size_l l)"
    and "1 / 2 ^ 1021 \<le> B" and "B * (1 + 1 / 2 ^ 52) ^ length asks < 2 ^ 1023"
    by simp_all
  then show "\<exists>v c. walk_asks srt ieee asks (Fin B) = Inr v \<and> total_cost v = Fin c \<and> 0 \<le> c
           \<and> c \<le> B * (1 + 1 / 2 ^ 52) ^ length asks"
    by (rule walk_asks_rounded_bound)
qed

theorem budget_bound_witness:
  "fgt (Fin 10) (Fin 0)
   \<and> buy_avg_fill_price input_order Fin [\<lparr>price = Fin 3, size_l = Fin 5\<rparr>, \<lparr>price = Fin 1, size_l = Fin 4\<rparr>]
        (Fin 10) = Inr (Some (Fin (5 / 3)))
   \<and> finite_level \<lparr>price = Fin 3, size_l = Fin 5\<rparr> \<and> finite_level \<lparr>price = Fin 1, size_l = Fin 4\<rparr>
   \<and> is_finite (Fin 10)
   \<and> (\<exists>v. walk_asks input_order Fin [\<lparr>price = Fin 3, size_l = Fin 5\<rparr>, \<lparr>price = Fin 1, size_l = Fin 4\<rparr>]
              (Fin 10) = Inr v
          \<and> total_cost v = Fin 10 \<and> total_shares v = Fin 6
          \<and> fle (fmul Fin (Fin (5 / 3)) (total_shares v)) (Fin 10))
   \<and> finite_level \<lparr>price = ieee (1 / 100), size_l = Fin 44\<rparr>
   \<and> finite_level \<lparr>price = ieee (36 / 100), size_l = Fin 215\<rparr>
   \<and> finite_level \<lparr>price = ieee (8 / 100), size_l = Fin 17\<rparr>
   \<and> fle (Fin 0) (Fin 44) \<and> fle (Fin 0) (Fin 215) \<and> fle (Fin 0) (Fin 17)
   \<and> 1 / 2 ^ 1021 \<le> (10 :: real) \<and> 10 * (1 + 1 / 2 ^ 52) ^ 3 < (2 :: real) ^ 1023
   \<and> (\<exists>v c. walk_asks input_order ieee
                [\<lparr>price = ieee (1 / 100), size_l = Fin 44\<rparr>,
                 \<lparr>price = ieee (36 / 100), size_l = Fin 215\<rparr>,
                 \<lparr>price = ieee (8 / 100), size_l = Fin 17\<rparr>] (Fin 10) = Inr v
            \<and> total_cost v = Fin c \<and> c = 10 + 1 / 2 ^ 49 \<and> c \<le> 10 * (1 + 1 / 2 ^ 52) ^ 3)"
proof -
  let ?book = "[\<lparr>price = ieee (1 / 100), size_l = Fin 44\<rparr>,
                \<lparr>price = ieee (36 / 100), size_l = Fin 215\<rparr>,
                \<lparr>price = ieee (8 / 100), size_l = Fin 17\<rparr>]"
  have pos: "fgt (Fin 10) (Fin 0)" by simp
  have res: "buy_avg_fill_price input_order Fin
        [\<lparr>price = Fin 3, size_l = Fin 5\<rparr>, \<lparr>price = Fin 1, size_l = Fin 4\<rparr>]
        (Fin 10) = Inr (Some (Fin (5 / 3)))"
    by (simp add: buy_avg_fill_price_def walk_asks_def py_sorted_def stable_sorted_def py_truediv_def
          eps_shares_def eps_budget_def)
  have exact: "\<exists>v. walk_asks input_order Fin [\<lparr>price = Fin 3, size_l = Fin 5\<rparr>, \<lparr>price = Fin 1, size_l = Fin 4\<rparr>]
              (Fin 10) = Inr v
          \<and> total_cost v = Fin 10 \<and> total_shares v = Fin 6
          \<and> fle (fmul Fin (Fin (5 / 3)) (total_shares v)) (Fin 10)"
    using budget_bound [of "Fin 10" input_order
        "[\<lparr>price = Fin 3, size_l = Fin 5\<rparr>, \<lparr>price = Fin 1, size_l = Fin 4\<rparr>]" "Fin (5 / 3)"]
      pos res
    by (auto simp: walk_asks_def py_sorted_def stable_sorted_def py_truediv_def eps_budget_def finite_level_def)
  have fl: "finite_level \<lparr>price = ieee (1 / 100), size_l = Fin 44\<rparr>"
      "finite_level \<lparr>price = ieee (36 / 100), size_l = Fin 215\<rparr>"
      "finite_level \<lparr>price = ieee (8 / 100), size_l = Fin 17\<rparr>"
    by (simp_all add: finite_level_def ieee_binade [where e = "- 7"]
          ieee_binade [where e = "- 4"] ieee_binade [where e = "- 2"]
          pow2_def round_half_even_def Let_def)
  have b1: "1 / 2 ^ 1021 \<le> (10 :: real)" by simp
  have "(1 + 1 / 2 ^ 52 :: real) ^ 3 \<le> 2 ^ 3" by (intro power_mono) simp_all
  then have "10 * (1 + 1 / 2 ^ 52) ^ 3 \<le> (80 :: real)" by simp
  also have "\<dots> < 2 ^ 1023" by simp
  finally have b2: "10 * (1 + 1 / 2 ^ 52) ^ 3 < (2 :: real) ^ 1023" .
  have ev: "walk_asks input_order ieee ?book (Fin 10)
       = Inr \<lparr>total_cost = Fin (10 + 1 / 2 ^ 49),
              total_shares = Fin (5895337012217629 / 2 ^ 46), remaining = Fin 0\<rparr>"
    by (simp add: walk_asks_def py_sorted_def stable_sorted_def py_truediv_def eps_budget_def
        ieee_binade [where e = "- 7"] ieee_binade [where e = "- 4"] ieee_binade [where e = "- 2"]
        ieee_binade [where e = 0] ieee_binade [where e = 3] ieee_binade [where e = 4]
        ieee_binade [where e = 5] ieee_binade [where e = 6]
        pow2_def round_half_even_def Let_def)
  have "\<exists>v c. walk_asks input_order ieee ?book (Fin 10) = Inr v \<and> total_cost v = Fin c \<and> 0 \<le> c
           \<and> c \<le> 10 * (1 + 1 / 2 ^ 52) ^ length ?book"
    using budget_bound [of _ input_order ?book _ 10] fl b1 b2 by simp
  then obtain v c where vc: "walk_asks input_order ieee ?book (Fin 10) = Inr v" "total_cost v = Fin c"
      "c \<le> 10 * (1 + 1 / 2 ^ 52) ^ length ?book"
    by blast
  have len: "length ?book = 3" by simp
  from vc(1,2) ev have ceq: "c = 10 + 1 / 2 ^ 49" by simp
  from vc(3) have cle: "c \<le> 10 * (1 + 1 / 2 ^ 52) ^ 3" unfolding len .
  from vc(1,2) ceq cle have rounded: "\<exists>v c. walk_asks input_order ieee ?book (Fin 10) = Inr v
            \<and> total_cost v = Fin c \<and> c = 10 + 1 / 2 ^ 49 \<and> c \<le> 10 * (1 + 1 / 2 ^ 52) ^ 3"
    by blast
  have fin: "finite_level \<lparr>price = Fin 3, size_l = Fin 5\<rparr>"
      "finite_level \<lparr>price = Fin 1, size_l = Fin 4\<rparr>" "is_finite (Fin 10)"
    by (simp_all add: finite_level_def)
  have sz: "fle (Fin 0) (Fin 44)" "fle (Fin 0) (Fin 215)" "fle (Fin 0) (Fin 17)"
    by simp_all
  from pos res fin exact fl sz b1 b2 rounded show ?thesis
    by (intro conjI)
qed

text \<open>
  C10 as stated fails in Python's arithmetic, where every sum is rounded. With budget 10
  and the asks (0.01, 44), (0.36, 215) and (0.08, 17) the simulator returns a fill
  price, and the cost its walk has added up is \<open>10 + 2^-49\<close>, above the budget; so is
  the price times the filled shares, rounded or not.
\<close>

theorem budget_bound_counterexample:
  "fgt (Fin 10) (Fin 0)
   \<and> buy_avg_fill_price input_order ieee
        [\<lparr>price = ieee (1 / 100), size_l = Fin 44\<rparr>, \<lparr>price = ieee (36 / 100), size_l = Fin 215\<rparr>,
         \<lparr>price = ieee (8 / 100), size_l = Fin 17\<rparr>] (Fin 10)
       = Inr (Some (Fin (8601039076145245 / 2 ^ 56)))
   \<and> walk_asks input_order ieee
        [\<lparr>price = ieee (1 / 100), size_l = Fin 44\<rparr>, \<lparr>price = ieee (36 / 100), size_l = Fin 215\<rparr>,
         \<lparr>price = ieee (8 / 100), size_l = Fin 17\<rparr>] (Fin 10)
       = Inr \<lparr>total_cost = Fin (10 + 1 / 2 ^ 49),
              total_shares = Fin (5895337012217629 / 2 ^ 46), remaining = Fin 0\<rparr>
   \<and> fgt (Fin (10 + 1 / 2 ^ 49)) (Fin 10)
   \<and> fmul ieee (Fin (8601039076145245 / 2 ^ 56)) (Fin (5895337012217629 / 2 ^ 46))
       = Fin (10 + 1 / 2 ^ 49)
   \<and> fgt (fmul Fin (Fin (8601039076145245 / 2 ^ 56)) (Fin (5895337012217629 / 2 ^ 46)))
         (Fin 10)"
  by (simp add: buy_avg_fill_price_def walk_asks_def py_sorted_def stable_sorted_def py_truediv_def
        eps_shares_def eps_budget_def
        ieee_binade [where e = "- 7"] ieee_binade [where e = "- 4"] ieee_binade [where e = "- 2"]
        ieee_binade [where e = 0] ieee_binade [where e = 3] ieee_binade [where e = 4]
        ieee_binade [where e = 5] ieee_binade [where e = 6]
        pow2_def round_half_even_def Let_def)

subsection \<open>The simulator writes to no object\<close>

lemma map_insort_lt:
  "map f (insort_lt (\<lambda>r. k (f r)) x xs) = insort_lt k (f x) (map f xs)"
  by (induction xs) simp_all

lemma map_stable_sorted: "map f (stable_sorted (\<lambda>r. k (f r)) xs) = stable_sorted k (map f xs)"
  by (induction xs) (simp_all add: stable_sorted_def map_insort_lt)

lemma map_insort_key_snd:
  "map (apsnd f) (insort_key fst z zs) = insort_key fst (apsnd f z) (map (apsnd f) zs)"
  by (induction zs) auto

lemma map_sort_key_snd: "map (apsnd f) (sort_key fst zs) = sort_key fst (map (apsnd f) zs)"
  by (induction zs) (simp_all add: map_insort_key_snd)

lemma map_by_rank: "map f (by_rank ranks xs) = by_rank ranks (map f xs)"
proof -
  have "zip ranks (map f xs) = map (apsnd f) (zip ranks xs)"
    by (simp add: zip_map2 apsnd_def map_prod_def)
  then have "by_rank ranks (map f xs) = map snd (map (apsnd f) (sort_key fst (zip ranks xs)))"
    by (simp add: by_rank_def map_sort_key_snd)
  also have "\<dots> = map f (map snd (sort_key fst (zip ranks xs)))"
    by (simp add: comp_def)
  finally show ?thesis by (simp add: by_rank_def)
qed

lemma map_py_sorted:
  "map f (py_sorted srt (\<lambda>r. k (f r)) xs) = py_sorted srt k (map f xs)"
proof -
  have "map (\<lambda>r. k (f r)) xs = map k (map f xs)" by simp
  then show ?thesis
    by (simp only: py_sorted_def map_by_rank map_stable_sorted length_map if_distrib [of "map f"])
qed

lemma walk_loop_h_reads:
  "walk_loop_h fl s refs v = (s, walk_loop fl (map (level_objs s) refs) v)"
proof (induction refs arbitrary: v)
  case Nil
  show ?case by simp
next
  case (Cons r rest)
  then show ?case
    by (simp add: Let_def split: sum.splits)
qed

lemma buy_avg_fill_price_h_frame:
  "level_objs (fst (buy_avg_fill_price_h srt fl s asks budget)) = level_objs s
   \<and> (\<forall>r. r < next_ref s \<longrightarrow>
         list_objs (fst (buy_avg_fill_price_h srt fl s asks budget)) r = list_objs s r)
   \<and> next_ref s \<le> next_ref (fst (buy_avg_fill_price_h srt fl s asks budget))
   \<and> snd (buy_avg_fill_price_h srt fl s asks budget)
       = buy_avg_fill_price srt fl (map (level_objs s) (list_objs s asks)) budget"
  by (auto simp: buy_avg_fill_price_h_def buy_avg_fill_price_def walk_asks_def sorted_h_def
        walk_loop_h_reads map_py_sorted Let_def split: sum.splits)

text \<open>
  C9. Whatever the rounding, a call of the simulator on an allocated list \<open>asks\<close> leaves
  every \<^verbatim>\<open>Level\<close> object with its price and size and every allocated list with its
  items (the only change of the store is the list that \<^verbatim>\<open>sorted\<close> allocates), and
  returns what the simulator computes from the levels the list referred to before the
  call. So the calls for the budgets 10, 50 and 200, run one after the other on one
  store, each see the levels of the first store, and leave them.
\<close>

theorem simulator_frame:
  assumes "asks < next_ref s"
  shows "level_objs (fst (buy_avg_fill_price_h srt fl s asks budget)) = level_objs s
   \<and> (\<forall>r. r < next_ref s \<longrightarrow>
         list_objs (fst (buy_avg_fill_price_h srt fl s asks budget)) r = list_objs s r)
   \<and> snd (buy_avg_fill_price_h srt fl s asks budget)
       = buy_avg_fill_price srt fl (map (level_objs s) (list_objs s asks)) budget
   \<and> (case three_budgets_h srt fl s asks of
        (s3, avg10, avg50, avg200) \<Rightarrow>
          level_objs s3 = level_objs s
          \<and> list_objs s3 asks = list_objs s asks
          \<and> avg10 = buy_avg_fill_price srt fl (map (level_objs s) (list_objs s asks)) (Fin 10)
          \<and> avg50 = buy_avg_fill_price srt fl (map (level_objs s) (list_objs s asks)) (Fin 50)
          \<and> avg200 = buy_avg_fill_price srt fl (map (level_objs s) (list_objs s asks)) (Fin 200))"
proof -
  let ?s1 = "fst (buy_avg_fill_price_h srt fl s asks (Fin 10))"
  let ?s2 = "fst (buy_avg_fill_price_h srt fl ?s1 asks (Fin 50))"
  let ?s3 = "fst (buy_avg_fill_price_h srt fl ?s2 asks (Fin 200))"
  note f0 = buy_avg_fill_price_h_frame [of srt fl s asks budget]
  note f1 = buy_avg_fill_price_h_frame [of srt fl s asks "Fin 10"]
  note f2 = buy_avg_fill_price_h_frame [of srt fl ?s1 asks "Fin 50"]
  note f3 = buy_avg_fill_price_h_frame [of srt fl ?s2 asks "Fin 200"]
  from assms f1 have a1: "asks < next_ref ?s1" and l1: "list_objs ?s1 asks = list_objs s asks"
    by auto
  from a1 f2 have a2: "asks < next_ref ?s2" and l2: "list_objs ?s2 asks = list_objs ?s1 asks"
    by auto
  from a2 f3 have l3: "list_objs ?s3 asks = list_objs ?s2 asks"
    by auto
  have three: "three_budgets_h srt fl s asks =
      (?s3, snd (buy_avg_fill_price_h srt fl s asks (Fin 10)),
        snd (buy_avg_fill_price_h srt fl ?s1 asks (Fin 50)),
        snd (buy_avg_fill_price_h srt fl ?s2 asks (Fin 200)))"
    by (simp add: three_budgets_h_def split_beta Let_def)
  show ?thesis
    using f0 f1 f2 f3 l1 l2 l3 by (simp add: three)
qed

theorem simulator_frame_witness:
  "(0::nat) < next_ref \<lparr>level_objs = (\<lambda>r. \<lparr>price = Fin 2, size_l = Fin 100\<rparr>),
                         list_objs = (\<lambda>r. [0]), next_ref = 1\<rparr>
   \<and> level_objs (fst (buy_avg_fill_price_h input_order ieee
         \<lparr>level_objs = (\<lambda>r. \<lparr>price = Fin 2, size_l = Fin 100\<rparr>),
          list_objs = (\<lambda>r. [0]), next_ref = 1\<rparr> 0 (Fin 50))) 0
       = \<lparr>price = Fin 2, size_l = Fin 100\<rparr>
   \<and> list_objs (fst (buy_avg_fill_price_h input_order ieee
         \<lparr>level_objs = (\<lambda>r. \<lparr>price = Fin 2, size_l = Fin 100\<rparr>),
          list_objs = (\<lambda>r. [0]), next_ref = 1\<rparr> 0 (Fin 50))) 0 = [0]
   \<and> snd (buy_avg_fill_price_h input_order ieee
         \<lparr>level_objs = (\<lambda>r. \<lparr>price = Fin 2, size_l = Fin 100\<rparr>),
          list_objs = (\<lambda>r. [0]), next_ref = 1\<rparr> 0 (Fin 50)) = Inr (Some (Fin 2))"
  using simulator_frame [of 0 "\<lparr>level_objs = (\<lambda>r. \<lparr>price = Fin 2, size_l = Fin 100\<rparr>),
          list_objs = (\<lambda>r. [0]), next_ref = 1\<rparr>" input_order ieee "Fin 50"]
  by (simp add: buy_avg_fill_price_def walk_asks_def py_sorted_def stable_sorted_def py_truediv_def
        eps_shares_def eps_budget_def
        ieee_binade [where e = 1] ieee_binade [where e = 4] ieee_binade [where e = 5]
        ieee_binade [where e = 7] pow2_def round_half_even_def Let_def)

subsection \<open>The level parser\<close>

lemma float_inf: "float_of_str fl ''inf'' = Some PInf"
  by (simp add: float_of_str_def to_ascii_space_def strip_def is_space_def is_digit_def split_sign_def lower_def
        Let_def)

lemma float_nan: "float_of_str fl ''nan'' = Some NaN"
  by (simp add: float_of_str_def to_ascii_space_def strip_def is_space_def is_digit_def split_sign_def lower_def
        Let_def)

lemma float_2: "float_of_str fl ''2.0'' = Some (fl 2)"
  by (simp add: float_of_str_def to_ascii_space_def strip_def is_space_def is_digit_def split_sign_def lower_def
        parse_decimal_def parse_exponent_def digits_val_def digit_val_def Let_def)

lemma float_100: "float_of_str fl ''100'' = Some (fl 100)"
  by (simp add: float_of_str_def to_ascii_space_def strip_def is_space_def is_digit_def split_sign_def lower_def
        parse_decimal_def parse_exponent_def digits_val_def digit_val_def Let_def)

lemma ieee_2: "ieee 2 = Fin 2"
  by (simp add: ieee_binade [where e = 1] pow2_def round_half_even_def Let_def)

lemma ieee_100: "ieee 100 = Fin 100"
  by (simp add: ieee_binade [where e = 6] pow2_def round_half_even_def Let_def)

lemma level_of_Inr: "level_of fl x = Inr l \<Longrightarrow> coerced_level fl x = Some l"
  by (auto simp: level_of_def coerced_level_def coerce_field_def split: sum.splits)

lemma level_of_Inl: "level_of fl x = Inl e \<Longrightarrow> coerced_level fl x = None"
  by (auto simp: level_of_def coerced_level_def coerce_field_def split: sum.splits)

lemma parse_loop_map_filter:
  "parse_loop fl xs out = out @ List.map_filter (coerced_level fl) xs"
proof (induction xs arbitrary: out)
  case Nil
  show ?case by (simp add: List.map_filter_simps)
next
  case (Cons x xs)
  show ?case
  proof (cases "level_of fl x")
    case (Inl e)
    then show ?thesis by (simp add: Cons.IH level_of_Inl List.map_filter_simps)
  next
    case (Inr l)
    then show ?thesis by (simp add: Cons.IH level_of_Inr List.map_filter_simps)
  qed
qed

lemma coerced_level_iff:
  "coerced_level fl x = Some l \<longleftrightarrow>
     coerce_field fl x ''price'' = Some (price l) \<and> coerce_field fl x ''size'' = Some (size_l l)"
  by (cases l) (auto simp: coerced_level_def split: option.splits)

lemma set_map_filter: "y \<in> set (List.map_filter f xs) \<longleftrightarrow> (\<exists>x\<in>set xs. f x = Some y)"
  by (induction xs) (auto simp: List.map_filter_simps split: option.splits)

text \<open>
  C3, amended. Whatever the rounding, from a list of raw records the parser returns, in
  the order of the records and raising nothing, one level for each record whose price
  and size fields \<^verbatim>\<open>float\<close> coerces, with the coerced values as price and size; a
  record with a missing field or a field that \<^verbatim>\<open>float\<close> rejects yields no level. The
  coerced values are whatever \<^verbatim>\<open>float\<close> returns, infinities and NaN among them.
\<close>

theorem level_parser:
  "parse_levels fl (JArr xs) = Inr (List.map_filter (coerced_level fl) xs)
   \<and> (l \<in> set (List.map_filter (coerced_level fl) xs) \<longleftrightarrow>
        (\<exists>x\<in>set xs. coerce_field fl x ''price'' = Some (price l)
                   \<and> coerce_field fl x ''size'' = Some (size_l l)))
   \<and> length (List.map_filter (coerced_level fl) xs)
       = length (filter (\<lambda>x. coerce_field fl x ''price'' \<noteq> None
                             \<and> coerce_field fl x ''size'' \<noteq> None) xs)"
proof (intro conjI)
  show "parse_levels fl (JArr xs) = Inr (List.map_filter (coerced_level fl) xs)"
    by (cases xs) (simp_all add: parse_levels_def py_or_def parse_loop_map_filter
          List.map_filter_simps)
next
  show "l \<in> set (List.map_filter (coerced_level fl) xs) \<longleftrightarrow>
        (\<exists>x\<in>set xs. coerce_field fl x ''price'' = Some (price l)
                   \<and> coerce_field fl x ''size'' = Some (size_l l))"
    by (simp add: set_map_filter coerced_level_iff)
next
  have "\<And>x. (coerced_level fl x \<noteq> None) =
      (coerce_field fl x ''price'' \<noteq> None \<and> coerce_field fl x ''size'' \<noteq> None)"
    by (auto simp: coerced_level_def split: option.splits)
  then show "length (List.map_filter (coerced_level fl) xs)
       = length (filter (\<lambda>x. coerce_field fl x ''price'' \<noteq> None
                             \<and> coerce_field fl x ''size'' \<noteq> None) xs)"
    by (simp add: List.map_filter_def)
qed

theorem level_parser_witness:
  "parse_levels ieee (JArr [JObj [(''price'', JStr ''2.0''), (''size'', JStr ''100'')],
                            JObj [(''price'', JNull), (''size'', JStr ''100'')],
                            JObj [(''price'', JStr ''2.0'')],
                            JStr ''2.0''])
     = Inr [\<lparr>price = Fin 2, size_l = Fin 100\<rparr>]"
  using level_parser [of ieee "[JObj [(''price'', JStr ''2.0''), (''size'', JStr ''100'')],
                       JObj [(''price'', JNull), (''size'', JStr ''100'')],
                       JObj [(''price'', JStr ''2.0'')],
                       JStr ''2.0'']" "\<lparr>price = Fin 2, size_l = Fin 100\<rparr>"]
  by (simp add: List.map_filter_simps coerced_level_def coerce_field_def dict_lookup_def
        float_2 float_100 ieee_2 ieee_100)

text \<open>
  C3 as stated fails on the record \<^verbatim>\<open>{"price": "inf", "size": "nan"}\<close>: \<^verbatim>\<open>float\<close>
  accepts both strings, and the parser returns a level of infinite price and NaN size.
\<close>

theorem level_parser_counterexample:
  "parse_levels ieee (JArr [JObj [(''price'', JStr ''inf''), (''size'', JStr ''nan'')]])
     = Inr [\<lparr>price = PInf, size_l = NaN\<rparr>]
   \<and> \<not> is_finite (price \<lparr>price = PInf, size_l = NaN\<rparr>)
   \<and> \<not> is_finite (size_l \<lparr>price = PInf, size_l = NaN\<rparr>)"
  by (simp add: parse_levels_def py_or_def level_of_def dict_lookup_def float_inf float_nan)

subsection \<open>The batch\<close>

lemma parse_levels_side_ok: "(\<exists>ls. parse_levels fl v = Inr ls) \<longleftrightarrow> side_ok v"
  by (cases v) (auto simp: parse_levels_def py_or_def side_ok_def)

lemma parse_levels_Inl: "(\<exists>e. parse_levels fl v = Inl e) \<longleftrightarrow> \<not> side_ok v"
  by (cases v) (auto simp: parse_levels_def py_or_def side_ok_def)

lemma book_metrics_returns: "\<exists>r. book_metrics srt fl ts tok bids asks = Inr r"
proof -
  obtain avg10 avg50 avg200 where
    "buy_avg_fill_price srt fl asks (Fin 10) = Inr avg10"
    "buy_avg_fill_price srt fl asks (Fin 50) = Inr avg50"
    "buy_avg_fill_price srt fl asks (Fin 200) = Inr avg200"
    using three_fill_prices [of srt fl asks] by blast
  then show ?thesis
    by (simp add: book_metrics_row [where bids = bids and ts = ts and tok = tok])
qed

lemma book_metrics_empty: "book_metrics srt fl ts tok [] [] = Inr r \<Longrightarrow> all_absent r"
  by (auto simp: book_metrics_def best_bid_ask_def buy_avg_fill_price_def all_absent_def)

lemma process_record_ok: "(\<exists>r. process_record srt fl ob = Inr r) \<longleftrightarrow> record_ok ob"
proof (cases ob)
  case (JObj kvs)
  define rb where "rb = (case dict_lookup kvs ''bids'' of None \<Rightarrow> JArr [] | Some v \<Rightarrow> v)"
  define ra where "ra = (case dict_lookup kvs ''asks'' of None \<Rightarrow> JArr [] | Some v \<Rightarrow> v)"
  have ok: "record_ok ob \<longleftrightarrow> side_ok rb \<and> side_ok ra"
    by (auto simp: JObj rb_def ra_def side_ok_def split: option.splits)
  show ?thesis
  proof (cases "side_ok rb \<and> side_ok ra")
    case True
    then obtain bids asks where
      p: "parse_levels fl rb = Inr bids" "parse_levels fl ra = Inr asks"
      using parse_levels_side_ok [of fl rb] parse_levels_side_ok [of fl ra] by blast
    obtain r where "book_metrics srt fl
        (py_or (case dict_lookup kvs ''timestamp'' of None \<Rightarrow> JNull | Some v \<Rightarrow> v) (JStr []))
        (py_or (py_or (case dict_lookup kvs ''asset_id'' of None \<Rightarrow> JNull | Some v \<Rightarrow> v)
                      (case dict_lookup kvs ''token_id'' of None \<Rightarrow> JNull | Some v \<Rightarrow> v))
               (JStr [])) bids asks = Inr r"
      using book_metrics_returns [of srt fl _ _ bids asks] by blast
    with p have "process_record srt fl ob = Inr r"
      by (simp add: process_record_def JObj rb_def ra_def split: option.splits)
    with True ok show ?thesis by blast
  next
    case False
    then have "(\<exists>e. parse_levels fl rb = Inl e) \<or> (\<exists>e. parse_levels fl ra = Inl e)"
      using parse_levels_Inl [of fl rb] parse_levels_Inl [of fl ra] by blast
    then have "\<exists>e. process_record srt fl ob = Inl e"
      by (auto simp: process_record_def JObj rb_def ra_def split: option.splits sum.splits)
    with False ok show ?thesis by auto
  qed
qed (simp_all add: process_record_def)

lemma process_record_no_levels:
  assumes "process_record srt fl ob = Inr r" and "no_levels fl ob"
  shows "all_absent r"
  using assms
  by (auto simp: process_record_def no_levels_def parsed_side_def
        split: sum.splits intro: book_metrics_empty)

lemma main_loop_ok:
  "\<forall>ob\<in>set obs. record_ok ob \<Longrightarrow>
     \<exists>rows. main_loop srt fl obs acc = Inr (acc @ rows) \<and> length rows = length obs
        \<and> (\<forall>i<length obs. process_record srt fl (obs ! i) = Inr (rows ! i))"
proof (induction obs arbitrary: acc)
  case Nil
  show ?case by simp
next
  case (Cons ob obs)
  from Cons.prems have "record_ok ob" and rest: "\<forall>ob\<in>set obs. record_ok ob"
    by simp_all
  then obtain r where r: "process_record srt fl ob = Inr r"
    using process_record_ok [of srt fl ob] by blast
  from Cons.IH [OF rest, of "acc @ [r]"] obtain rows where
    rows: "main_loop srt fl obs (acc @ [r]) = Inr ((acc @ [r]) @ rows)"
      "length rows = length obs"
      "\<forall>i<length obs. process_record srt fl (obs ! i) = Inr (rows ! i)"
    by blast
  have nth: "\<forall>i<length (ob # obs). process_record srt fl ((ob # obs) ! i) = Inr ((r # rows) ! i)"
  proof (intro allI impI)
    fix i assume "i < length (ob # obs)"
    with r rows(3) show "process_record srt fl ((ob # obs) ! i) = Inr ((r # rows) ! i)"
      by (cases i) simp_all
  qed
  have "main_loop srt fl (ob # obs) acc = Inr (acc @ (r # rows))"
    using r rows(1) by simp
  moreover have "length (r # rows) = length (ob # obs)"
    using rows(2) by simp
  ultimately show ?case using nth by blast
qed

lemma main_loop_abort:
  "\<exists>ob\<in>set obs. \<not> record_ok ob \<Longrightarrow> \<exists>e. main_loop srt fl obs acc = Inl e"
proof (induction obs arbitrary: acc)
  case Nil
  then show ?case by simp
next
  case (Cons ob obs)
  show ?case
  proof (cases "record_ok ob")
    case True
    then obtain r where r: "process_record srt fl ob = Inr r"
      using process_record_ok [of srt fl ob] by blast
    from Cons.prems True have "\<exists>ob\<in>set obs. \<not> record_ok ob" by auto
    from Cons.IH [OF this, of "acc @ [r]"] r show ?thesis by simp
  next
    case False
    then have "\<not> (\<exists>r. process_record srt fl ob = Inr r)"
      using process_record_ok [of srt fl ob] by simp
    then obtain e where "process_record srt fl ob = Inl e"
      by (cases "process_record srt fl ob") auto
    then show ?thesis by simp
  qed
qed

text \<open>
  C1, amended. Whatever the rounding: when every record of the batch is a dict whose
  \<^verbatim>\<open>bids\<close> and \<^verbatim>\<open>asks\<close>, where present, are false values, lists, strings or dicts,
  the loop raises nothing and returns one row for each record, in the order of the
  batch; the row of a record from which no level can be parsed on either side has all
  derived fields absent. When some record is not of that shape the loop raises, and no
  row of the batch is returned.
\<close>

theorem batch_policy:
  "((\<forall>ob\<in>set batch. record_ok ob) \<longrightarrow>
      (\<exists>rows. run_batch srt fl batch = Inr rows \<and> length rows = length batch
         \<and> (\<forall>i<length batch. process_record srt fl (batch ! i) = Inr (rows ! i)
               \<and> (no_levels fl (batch ! i) \<longrightarrow> all_absent (rows ! i)))))
   \<and> ((\<exists>ob\<in>set batch. \<not> record_ok ob) \<longrightarrow> (\<exists>e. run_batch srt fl batch = Inl e))"
proof (intro conjI impI)
  assume "\<forall>ob\<in>set batch. record_ok ob"
  from main_loop_ok [OF this, of srt fl "[]"] obtain rows where
    rows: "main_loop srt fl batch [] = Inr ([] @ rows)" "length rows = length batch"
      "\<forall>i<length batch. process_record srt fl (batch ! i) = Inr (rows ! i)"
    by blast
  have "\<forall>i<length batch. process_record srt fl (batch ! i) = Inr (rows ! i)
               \<and> (no_levels fl (batch ! i) \<longrightarrow> all_absent (rows ! i))"
  proof (intro allI impI conjI)
    fix i assume "i < length batch"
    with rows(3) show p: "process_record srt fl (batch ! i) = Inr (rows ! i)" by simp
    assume "no_levels fl (batch ! i)"
    with p show "all_absent (rows ! i)" by (rule process_record_no_levels)
  qed
  with rows(1,2) show "\<exists>rows. run_batch srt fl batch = Inr rows \<and> length rows = length batch
         \<and> (\<forall>i<length batch. process_record srt fl (batch ! i) = Inr (rows ! i)
               \<and> (no_levels fl (batch ! i) \<longrightarrow> all_absent (rows ! i)))"
    unfolding run_batch_def by (intro exI [of _ rows]) simp
next
  assume "\<exists>ob\<in>set batch. \<not> record_ok ob"
  then show "\<exists>e. run_batch srt fl batch = Inl e"
    unfolding run_batch_def by (rule main_loop_abort)
qed

theorem batch_policy_witness:
  "record_ok (JObj [(''bids'', JStr ''oops''), (''asks'', JNull)])
   \<and> record_ok (JObj [(''asset_id'', JStr ''t1''),
            (''asks'', JArr [JObj [(''price'', JStr ''2.0''), (''size'', JStr ''100'')]])])
   \<and> no_levels ieee (JObj [(''bids'', JStr ''oops''), (''asks'', JNull)])
   \<and> (\<exists>rows. run_batch input_order ieee
          [JObj [(''bids'', JStr ''oops''), (''asks'', JNull)],
           JObj [(''asset_id'', JStr ''t1''),
             (''asks'', JArr [JObj [(''price'', JStr ''2.0''), (''size'', JStr ''100'')]])]]
          = Inr rows
        \<and> length rows = 2 \<and> all_absent (rows ! 0))
   \<and> \<not> record_ok (JObj [(''asset_id'', JStr ''t2''), (''bids'', JInt 5)])
   \<and> (\<exists>e. run_batch input_order ieee [JObj [(''asset_id'', JStr ''t2''), (''bids'', JInt 5)]] = Inl e)"
proof -
  let ?r1 = "JObj [(''bids'', JStr ''oops''), (''asks'', JNull)]"
  let ?r2 = "JObj [(''asset_id'', JStr ''t1''),
            (''asks'', JArr [JObj [(''price'', JStr ''2.0''), (''size'', JStr ''100'')]])]"
  let ?r3 = "JObj [(''asset_id'', JStr ''t2''), (''bids'', JInt 5)]"
  have ok1: "record_ok ?r1" and ok2: "record_ok ?r2" and bad: "\<not> record_ok ?r3"
    by (simp_all add: dict_lookup_def side_ok_def)
  have none: "no_levels ieee ?r1"
    by (simp add: no_levels_def parsed_side_def dict_lookup_def parse_levels_def py_or_def
          level_of_def)
  from ok1 ok2 have "\<forall>ob\<in>set [?r1, ?r2]. record_ok ob" by simp
  with batch_policy [of "[?r1, ?r2]" input_order ieee] obtain rows where
    rows: "run_batch input_order ieee [?r1, ?r2] = Inr rows" "length rows = length [?r1, ?r2]"
      "\<forall>i<length [?r1, ?r2]. process_record input_order ieee ([?r1, ?r2] ! i) = Inr (rows ! i)
          \<and> (no_levels ieee ([?r1, ?r2] ! i) \<longrightarrow> all_absent (rows ! i))"
    by blast
  from rows(3) none have "all_absent (rows ! 0)" by force
  with rows(1,2) have good: "\<exists>rows. run_batch input_order ieee [?r1, ?r2] = Inr rows
        \<and> length rows = 2 \<and> all_absent (rows ! 0)"
    by auto
  from bad batch_policy [of "[?r3]" input_order ieee] have "\<exists>e. run_batch input_order ieee [?r3] = Inl e" by simp
  with ok1 ok2 none good bad show ?thesis by blast
qed

text \<open>
  C1 as stated fails on a batch with a record that has the number 5 as its
  \<^verbatim>\<open>bids\<close>: iterating over it raises \<^verbatim>\<open>TypeError\<close> outside the \<^verbatim>\<open>try\<close> of
  \<^verbatim>\<open>parse_levels\<close>, the exception leaves the loop, and the well-formed record after
  it gets no row.
\<close>

theorem batch_policy_counterexample:
  "run_batch input_order ieee
     [JObj [(''asset_id'', JStr ''t2''), (''bids'', JInt 5)],
      JObj [(''asset_id'', JStr ''t1''),
            (''asks'', JArr [JObj [(''price'', JStr ''2.0''), (''size'', JStr ''100'')]])]]
     = Inl TypeError"
  by (simp add: run_batch_def process_record_def dict_lookup_def parse_levels_def py_or_def)

end
